theory Spec2Isabelle
  imports Complex_Main
begin

section \<open>Cycle-phase prediction of garmin\_data\_collector.py\<close>

text \<open>
  The development embeds the two phase predictors of
  \<^verbatim>\<open>backend/scripts/garmin_data_collector.py\<close>:
  \<^verbatim>\<open>predict_menstrual_phases\<close> (the batch predictor) and
  \<^verbatim>\<open>calculate_current_phase\<close> (the single-date variant).

  Conventions of the embedding.
  \<^item> A Python \<^verbatim>\<open>datetime\<close> obtained by \<^verbatim>\<open>strptime(s, '%Y-%m-%d')\<close> is a
    midnight; it is represented by its proleptic Gregorian ordinal
    (\<^verbatim>\<open>datetime.toordinal()\<close>), an \<open>int\<close>. Comparison of datetimes is comparison of
    ordinals and \<^verbatim>\<open>(a - b).days\<close> is the difference of ordinals.
  \<^item> Python integers are \<open>int\<close>; \<^verbatim>\<open>//\<close> and \<^verbatim>\<open>%\<close> are \<open>div\<close> and \<open>mod\<close>
    (both round towards minus infinity), with the \<^verbatim>\<open>ZeroDivisionError\<close> written out.
  \<^item> A raised exception is a value of \<open>py_error\<close>; every early \<^verbatim>\<open>return\<close> of the
    batch predictor is a value of \<open>failure\<close>.
  \<^item> The Supabase client is outside the embedding: the rows of table \<^verbatim>\<open>hr_data\<close> are
    an argument, and the list of predictions handed to the storing loop is the result.
\<close>

subsection \<open>Exceptions and early returns\<close>

datatype py_error = ValueError | ZeroDivisionError | OverflowError | IndexError | AttributeError

text \<open>
  The outcomes of the predictors other than a prediction. The first five are the early
  returns of \<^verbatim>\<open>predict_menstrual_phases\<close>, named after the message each one prints;
  \<open>NoCycleStartBefore\<close> is the error result of \<^verbatim>\<open>calculate_current_phase\<close> for a date
  before every cycle start; \<open>Raised\<close> is an exception leaving the function
  (\<^verbatim>\<open>raise e\<close> in the batch predictor, the error result built from \<^verbatim>\<open>str(e)\<close> in the
  single-date variant).
\<close>

datatype failure =
    NoHRData
  | NoMenstrualData
  | NoCycleSummaries
  | NoValidCycleStarts
  | NoCycleStartsMatch
  | NoCycleStartBefore
  | Raised py_error

subsection \<open>Dates: \<^verbatim>\<open>datetime.strptime(s, '%Y-%m-%d')\<close>\<close>

type_synonym datetime = int

definition is_leap :: "int \<Rightarrow> bool" where
  "is_leap y = (if y mod 100 = 0 then y mod 400 = 0 else y mod 4 = 0)"

definition days_in_month :: "int \<Rightarrow> int \<Rightarrow> int" where
  "days_in_month y m =
     (if m = 2 then (if is_leap y then 29 else 28)
      else if m = 4 \<or> m = 6 \<or> m = 9 \<or> m = 11 then 30 else 31)"

definition days_before_year :: "int \<Rightarrow> int" where
  "days_before_year y = (y - 1) * 365 + (y - 1) div 4 - (y - 1) div 100 + (y - 1) div 400"

definition days_before_month :: "int \<Rightarrow> int \<Rightarrow> int" where
  "days_before_month y m =
     [0, 31, 59, 90, 120, 151, 181, 212, 243, 273, 304, 334] ! nat (m - 1)
       + (if 2 < m \<and> is_leap y then 1 else 0)"

text \<open>\<^verbatim>\<open>_ymd2ord\<close> of Python's datetime module: the ordinal of a valid date, 0001-01-01 being day 1.\<close>

definition ymd2ord :: "int \<Rightarrow> int \<Rightarrow> int \<Rightarrow> datetime" where
  "ymd2ord y m d = days_before_year y + days_before_month y m + d"

definition is_digit :: "char \<Rightarrow> bool" where
  "is_digit c = (48 \<le> (of_char c :: nat) \<and> (of_char c :: nat) \<le> 57)"

definition digit :: "char \<Rightarrow> int" where
  "digit c = int (of_char c) - 48"

text \<open>
  The directive \<^verbatim>\<open>%m\<close> followed by the literal \<^verbatim>\<open>-\<close>: the regular expression
  \<^verbatim>\<open>1[0-2]|0[1-9]|[1-9]\<close> and then a hyphen. The result is the month and the rest of the text.
\<close>

fun parse_month :: "string \<Rightarrow> (int \<times> string) option" where
  "parse_month (a # b # c # r) =
     (if c = CHR ''-'' \<and> ((a = CHR ''1'' \<and> b \<in> set ''012'') \<or> (a = CHR ''0'' \<and> b \<in> set ''123456789''))
      then Some (10 * digit a + digit b, r)
      else if a \<in> set ''123456789'' \<and> b = CHR ''-'' then Some (digit a, c # r)
      else None)"
| "parse_month [a, b] =
     (if a \<in> set ''123456789'' \<and> b = CHR ''-'' then Some (digit a, []) else None)"
| "parse_month _ = None"

text \<open>
  The directive \<^verbatim>\<open>%d\<close> at the end of the format: the first alternative of
  \<^verbatim>\<open>3[0-1]|[1-2]\d|0[1-9]|[1-9]| [1-9]\<close> that matches, and the rest of the text.
\<close>

fun parse_day :: "string \<Rightarrow> (int \<times> string) option" where
  "parse_day (a # b # r) =
     (if (a = CHR ''3'' \<and> b \<in> set ''01'') \<or> (a \<in> set ''12'' \<and> is_digit b)
          \<or> (a = CHR ''0'' \<and> b \<in> set ''123456789'')
      then Some (10 * digit a + digit b, r)
      else if a \<in> set ''123456789'' then Some (digit a, b # r)
      else if a = CHR '' '' \<and> b \<in> set ''123456789'' then Some (digit b, r)
      else None)"
| "parse_day [a] = (if a \<in> set ''123456789'' then Some (digit a, []) else None)"
| "parse_day [] = None"

text \<open>
  \<^verbatim>\<open>datetime.strptime(s, '%Y-%m-%d')\<close>: four digits, a hyphen, the month, a hyphen, the
  day, nothing left over; then the date must exist (year at least 1, day within the month).
  Every failure is a \<^verbatim>\<open>ValueError\<close>.
\<close>

definition strptime :: "string \<Rightarrow> py_error + datetime" where
  "strptime s =
     (case s of
        y1 # y2 # y3 # y4 # h # rest \<Rightarrow>
          if is_digit y1 \<and> is_digit y2 \<and> is_digit y3 \<and> is_digit y4 \<and> h = CHR ''-'' then
            (case parse_month rest of
               None \<Rightarrow> Inl ValueError
             | Some (m, rest') \<Rightarrow>
                 (case parse_day rest' of
                    None \<Rightarrow> Inl ValueError
                  | Some (d, rest'') \<Rightarrow>
                      let y = 1000 * digit y1 + 100 * digit y2 + 10 * digit y3 + digit y4 in
                      if rest'' = [] \<and> 1 \<le> y \<and> d \<le> days_in_month y m then Inr (ymd2ord y m d)
                      else Inl ValueError))
          else Inl ValueError
      | _ \<Rightarrow> Inl ValueError)"

text \<open>
  \<^verbatim>\<open>d - timedelta(days=n)\<close>: a \<^verbatim>\<open>timedelta\<close> holds at most 999999999 days, and the
  result must be a date of the years 1 to 9999; otherwise \<^verbatim>\<open>OverflowError\<close>.
\<close>

definition minus_timedelta :: "datetime \<Rightarrow> int \<Rightarrow> py_error + datetime" where
  "minus_timedelta d n =
     (if \<bar>n\<bar> > 999999999 \<or> d - n < 1 \<or> d - n > 3652059 then Inl OverflowError
      else Inr (d - n))"

text \<open>Python's \<^verbatim>\<open>xs[i]\<close>: a negative index counts from the end; out of range is an \<^verbatim>\<open>IndexError\<close>.\<close>

definition subscript :: "'a list \<Rightarrow> int \<Rightarrow> py_error + 'a" where
  "subscript xs i =
     (if 0 \<le> i \<and> i < int (length xs) then Inr (xs ! nat i)
      else if i < 0 \<and> - int (length xs) \<le> i then Inr (xs ! nat (int (length xs) + i))
      else Inl IndexError)"

subsection \<open>The raw input\<close>

text \<open>
  One element of \<^verbatim>\<open>menstrual_data['cycleSummaries']\<close>. A field is \<open>None\<close> when the key is
  absent or its value is \<^verbatim>\<open>None\<close> (\<^verbatim>\<open>cycle.get\<close> returns \<^verbatim>\<open>None\<close> in both cases).
\<close>

record cycle_summary =
  startDate :: "string option"
  periodLength :: "int option"
  fertileWindowStart :: "int option"
  lengthOfFertileWindow :: "int option"

text \<open>
  The dictionary \<^verbatim>\<open>menstrual_data\<close>: the list under its key \<^verbatim>\<open>cycleSummaries\<close>
  (\<open>None\<close> when the key is absent or holds no list), and whether it has any other entry;
  a key \<^verbatim>\<open>cycleSummaries\<close> that holds \<^verbatim>\<open>None\<close> counts as such an entry, so that the
  dictionary is empty (and falsy) exactly when both fields say so. The argument of the
  predictors is a \<open>menstrual_data option\<close>, \<open>None\<close> for Python's \<^verbatim>\<open>None\<close>.
\<close>

record menstrual_data =
  cycleSummaries :: "cycle_summary list option"
  other_keys :: bool

definition is_empty_dict :: "menstrual_data \<Rightarrow> bool" where
  "is_empty_dict md = (cycleSummaries md = None \<and> \<not> other_keys md)"

text \<open>\<^verbatim>\<open>menstrual_data.get('cycleSummaries', [])\<close>\<close>

definition get_cycle_summaries :: "menstrual_data \<Rightarrow> cycle_summary list" where
  "get_cycle_summaries md = (case cycleSummaries md of None \<Rightarrow> [] | Some cs \<Rightarrow> cs)"

subsection \<open>Step 1: cycle start dates, period lengths and fertile windows\<close>

text \<open>The three accumulators of the parsing loop.\<close>

record parsed =
  cycle_starts :: "datetime list"
  period_lengths :: "datetime \<rightharpoonup> int"
  fertile_windows :: "datetime \<rightharpoonup> int \<times> int"

definition no_cycles :: parsed where
  "no_cycles = \<lparr>cycle_starts = [], period_lengths = Map.empty, fertile_windows = Map.empty\<rparr>"

text \<open>Truth value of an optional integer: \<^verbatim>\<open>None\<close> and \<^verbatim>\<open>0\<close> are falsy.\<close>

fun truthy :: "int option \<Rightarrow> bool" where
  "truthy None = False"
| "truthy (Some n) = (n \<noteq> 0)"

text \<open>\<^verbatim>\<open>not start_date_str or period_length is None\<close>: the record is skipped.\<close>

definition skipped :: "cycle_summary \<Rightarrow> bool" where
  "skipped c = (startDate c = None \<or> startDate c = Some [] \<or> periodLength c = None)"

fun parse_cycle_summaries :: "cycle_summary list \<Rightarrow> parsed \<Rightarrow> py_error + parsed" where
  "parse_cycle_summaries [] acc = Inr acc"
| "parse_cycle_summaries (c # cs) acc =
     (if skipped c then parse_cycle_summaries cs acc
      else
        (case strptime (the (startDate c)) of
           Inl e \<Rightarrow> Inl e
         | Inr start_date \<Rightarrow>
             parse_cycle_summaries cs
               \<lparr>cycle_starts = cycle_starts acc @ [start_date],
                period_lengths = (period_lengths acc)(start_date \<mapsto> the (periodLength c)),
                fertile_windows =
                  (if truthy (fertileWindowStart c) \<and> truthy (lengthOfFertileWindow c)
                   then (fertile_windows acc)(start_date \<mapsto>
                          (the (fertileWindowStart c), the (lengthOfFertileWindow c)))
                   else fertile_windows acc)\<rparr>))"

subsection \<open>Step 2: filtering overlapping cycle starts\<close>

definition min_cycle_length :: int where
  "min_cycle_length = 15"

text \<open>
  The loop over \<^verbatim>\<open>cycle_starts[1:]\<close>; the first argument is \<^verbatim>\<open>filtered_cycle_starts\<close>,
  which is never empty (it starts as \<^verbatim>\<open>[cycle_starts[0]]\<close>).
\<close>

fun filter_cycle_starts :: "datetime list \<Rightarrow> datetime list \<Rightarrow> datetime list" where
  "filter_cycle_starts filtered [] = filtered"
| "filter_cycle_starts filtered (c # rest) =
     (let days_since_last_start = c - last filtered in
      if days_since_last_start \<ge> min_cycle_length
      then filter_cycle_starts (filtered @ [c]) rest
      else filter_cycle_starts (filtered[length filtered - 1 := c]) rest)"

text \<open>Sorting, then the filter seeded with the first start. The argument is not empty.\<close>

definition filtered_cycle_starts :: "datetime list \<Rightarrow> datetime list" where
  "filtered_cycle_starts starts =
     (let sorted_starts = sort starts in
      filter_cycle_starts [hd sorted_starts] (tl sorted_starts))"

text \<open>
  Steps 1 and 2 together, as both predictors run them on a non-empty list of cycle
  summaries: the parsing loop, the check that it found a cycle start, and the assignment
  \<^verbatim>\<open>cycle_starts = filtered_cycle_starts\<close>. The dictionaries keep their entries for
  the starts that the filter dropped.
\<close>

definition normalized_history :: "cycle_summary list \<Rightarrow> failure + parsed" where
  "normalized_history cycle_summaries =
     (case parse_cycle_summaries cycle_summaries no_cycles of
        Inl e \<Rightarrow> Inl (Raised e)
      | Inr p \<Rightarrow>
          if cycle_starts p = [] then Inl NoValidCycleStarts
          else Inr (p\<lparr>cycle_starts := filtered_cycle_starts (cycle_starts p)\<rparr>))"

subsection \<open>Step 3: the estimated cycle length\<close>

text \<open>The loop over \<^verbatim>\<open>range(len(cycle_starts) - 1)\<close> collecting \<^verbatim>\<open>cycle_lengths\<close>.\<close>

fun cycle_lengths :: "datetime list \<Rightarrow> int list" where
  "cycle_lengths (a # b # rest) =
     (let cycle_length = b - a in
      if 15 \<le> cycle_length \<and> cycle_length \<le> 45
      then cycle_length # cycle_lengths (b # rest)
      else cycle_lengths (b # rest))"
| "cycle_lengths _ = []"

text \<open>
  \<^verbatim>\<open>int(np.mean(cycle_lengths))\<close>. The elements are integers between 15 and 45, so their
  sum and their number are exact in double precision and the quotient is rounded
  correctly; its truncation is the integer quotient for every list shorter than \<open>2^47\<close>.
\<close>

definition estimate_cycle_length :: "datetime list \<Rightarrow> int \<Rightarrow> int" where
  "estimate_cycle_length starts default_cycle_length =
     (let cls = cycle_lengths starts in
      if cls \<noteq> [] then sum_list cls div int (length cls) else default_cycle_length)"

subsection \<open>Step 4: cycle starts as indices into the dates\<close>

text \<open>
  The inner loop \<^verbatim>\<open>for i, date in enumerate(dates): if date >= start_date: ...; break\<close>:
  the index of the first date on or after the start, counting from \<open>i\<close>.
\<close>

fun first_index_from :: "nat \<Rightarrow> datetime list \<Rightarrow> datetime \<Rightarrow> nat option" where
  "first_index_from i [] start_date = None"
| "first_index_from i (date # dates) start_date =
     (if date \<ge> start_date then Some i else first_index_from (Suc i) dates start_date)"

text \<open>The outer loop: a start with no date on or after it appends nothing.\<close>

fun cycle_start_indices :: "datetime list \<Rightarrow> datetime list \<Rightarrow> nat list" where
  "cycle_start_indices dates [] = []"
| "cycle_start_indices dates (start_date # starts) =
     (case first_index_from 0 dates start_date of
        Some i \<Rightarrow> i # cycle_start_indices dates starts
      | None \<Rightarrow> cycle_start_indices dates starts)"

subsection \<open>Step 5: the governing cycle of a date\<close>

text \<open>
  The loop over \<^verbatim>\<open>zip(cycle_start_indices, cycle_starts)\<close> with its \<^verbatim>\<open>break\<close>; the last
  argument is the pair \<^verbatim>\<open>(cycle_start, cycle_start_idx)\<close> found so far.
\<close>

fun most_recent_start ::
  "(nat \<times> datetime) list \<Rightarrow> datetime \<Rightarrow> (datetime \<times> nat) option \<Rightarrow> (datetime \<times> nat) option" where
  "most_recent_start [] date found = found"
| "most_recent_start ((idx, start_date) # zs) date found =
     (if date \<ge> start_date then most_recent_start zs date (Some (start_date, idx)) else found)"

text \<open>
  The cycle start governing a date and its index: the most recent start, or the backward
  projection from the first start when the loop found none.
\<close>

definition governing_cycle ::
  "datetime list \<Rightarrow> nat list \<Rightarrow> int \<Rightarrow> datetime \<Rightarrow> py_error + datetime \<times> nat" where
  "governing_cycle starts indices estimated_cycle_length date =
     (case most_recent_start (zip indices starts) date None of
        Some found \<Rightarrow> Inr found
      | None \<Rightarrow>
          (case subscript starts 0 of
             Inl e \<Rightarrow> Inl e
           | Inr first_start \<Rightarrow>
               let days_before_first = first_start - date in
               if estimated_cycle_length = 0 then Inl ZeroDivisionError
               else
                 let cycles_before = days_before_first div estimated_cycle_length + 1 in
                 (case minus_timedelta first_start (cycles_before * estimated_cycle_length) of
                    Inl e \<Rightarrow> Inl e
                  | Inr cycle_start \<Rightarrow> Inr (cycle_start, 0))))"

text \<open>\<^verbatim>\<open>xs.index(x)\<close> guarded by \<^verbatim>\<open>x in xs\<close>: the first position of \<open>x\<close>, if any.\<close>

fun index_of :: "nat list \<Rightarrow> nat \<Rightarrow> nat option" where
  "index_of [] x = None"
| "index_of (y # ys) x = (if y = x then Some 0 else map_option Suc (index_of ys x))"

text \<open>The length of the cycle that starts at \<open>cycle_start\<close>, as lines 186 to 191 compute it.\<close>

definition current_cycle_length ::
  "datetime list \<Rightarrow> nat list \<Rightarrow> int \<Rightarrow> datetime \<Rightarrow> nat \<Rightarrow> py_error + int" where
  "current_cycle_length dates indices estimated_cycle_length cycle_start cycle_start_idx =
     (let next_cycle_idx =
            (case index_of indices cycle_start_idx of Some p \<Rightarrow> int p + 1 | None \<Rightarrow> - 1) in
      if next_cycle_idx < int (length indices) then
        (case subscript indices next_cycle_idx of
           Inl e \<Rightarrow> Inl e
         | Inr i \<Rightarrow>
             (case subscript dates (int i) of
                Inl e \<Rightarrow> Inl e
              | Inr d \<Rightarrow> Inr (d - cycle_start)))
      else Inr estimated_cycle_length)"

subsection \<open>Phase durations and phase day ranges\<close>

datatype phase = Menstrual | Follicular | Ovulatory | Luteal

record phase_boundaries =
  menstrual_end :: int
  follicular_end :: int
  ovulatory_end :: int
  luteal_end :: int

text \<open>
  \<^verbatim>\<open>int(a / b)\<close> for integers \<open>a\<close> and a positive \<open>b\<close>: the quotient truncated towards
  zero. The code divides in double precision, which gives this value while the operands
  are below \<open>2^53\<close>, as every day count is; beyond that the float is inexact, and an
  operand above the range of a double raises \<^verbatim>\<open>OverflowError\<close>.
\<close>

definition int_of_quotient :: "int \<Rightarrow> int \<Rightarrow> int" where
  "int_of_quotient a b = (if 0 \<le> a then a div b else - ((- a) div b))"

text \<open>
  The first value of \<^verbatim>\<open>(ovulatory_start, ovulatory_duration)\<close>: the fertile window of
  the cycle when the dictionary has one, the estimate otherwise.
\<close>

definition ovulatory_window :: "int \<Rightarrow> int \<Rightarrow> (int \<times> int) option \<Rightarrow> int \<times> int" where
  "ovulatory_window menstrual_duration cycle_length fertile_window =
     (case fertile_window of
        Some (fertile_window_start, fertile_window_length) \<Rightarrow>
          (fertile_window_start, fertile_window_length)
      | None \<Rightarrow>
          let ovulatory_midpoint = int_of_quotient (cycle_length * 14) 28;
              ovulatory_start = max (menstrual_duration + 1) (ovulatory_midpoint - 3);
              ovulatory_duration = 7
          in if ovulatory_start + ovulatory_duration - 1 > cycle_length
             then (max (menstrual_duration + 1) (cycle_length - ovulatory_duration + 1),
                   ovulatory_duration)
             else (ovulatory_start, ovulatory_duration))"

text \<open>
  The luteal clamp, the ovulatory start derived from it, the follicular gap and the four
  day ranges. The assignment to \<^verbatim>\<open>ovulatory_start\<close> inside
  \<^verbatim>\<open>if follicular_duration < 1\<close> is never read afterwards and has no counterpart here.
  Both predictors contain this code, the batch predictor with \<^verbatim>\<open>current_cycle_length\<close>
  and the single-date variant with \<^verbatim>\<open>estimated_cycle_length\<close> as the cycle length.
\<close>

definition phase_ranges :: "int \<Rightarrow> int \<Rightarrow> (int \<times> int) option \<Rightarrow> phase_boundaries" where
  "phase_ranges menstrual_duration cycle_length fertile_window =
     (let (ovulatory_start0, ovulatory_duration) =
            ovulatory_window menstrual_duration cycle_length fertile_window;
          luteal_duration0 = cycle_length - (ovulatory_start0 + ovulatory_duration - 1);
          luteal_duration = max 10 (min 16 luteal_duration0);
          ovulatory_start =
            max (menstrual_duration + 1) (cycle_length - luteal_duration - ovulatory_duration + 1);
          follicular_duration0 = ovulatory_start - menstrual_duration - 1;
          follicular_duration = (if follicular_duration0 < 1 then 1 else follicular_duration0);
          m_end = menstrual_duration;
          f_end = m_end + follicular_duration;
          o_end = f_end + ovulatory_duration
      in \<lparr>menstrual_end = m_end, follicular_end = f_end, ovulatory_end = o_end,
          luteal_end = cycle_length\<rparr>)"

text \<open>The \<^verbatim>\<open>if/elif/else\<close> chain mapping the folded cycle day to a phase.\<close>

definition phase_of_day :: "phase_boundaries \<Rightarrow> int \<Rightarrow> phase" where
  "phase_of_day b cycle_day_within_phase =
     (if 1 \<le> cycle_day_within_phase \<and> cycle_day_within_phase \<le> menstrual_end b then Menstrual
      else if menstrual_end b < cycle_day_within_phase \<and> cycle_day_within_phase \<le> follicular_end b
        then Follicular
      else if follicular_end b < cycle_day_within_phase \<and> cycle_day_within_phase \<le> ovulatory_end b
        then Ovulatory
      else Luteal)"

text \<open>\<^verbatim>\<open>cycle_day % n if cycle_day % n != 0 else n\<close>, for \<open>n\<close> other than 0.\<close>

definition day_within_cycle :: "int \<Rightarrow> int \<Rightarrow> int" where
  "day_within_cycle cycle_day n = (if cycle_day mod n \<noteq> 0 then cycle_day mod n else n)"

subsection \<open>The batch predictor\<close>

record prediction =
  user_id :: string
  date :: datetime
  start_date :: datetime
  predicted_phase :: phase
  cycle_day :: int

text \<open>
  The body of the loop of step 5 for one date. \<open>p\<close> holds the filtered cycle starts and
  the two dictionaries. The fields \<open>date\<close> and \<open>start_date\<close> of the result are the
  datetimes whose \<^verbatim>\<open>strftime('%Y-%m-%d')\<close> the source stores.
\<close>

definition predict_date ::
  "string \<Rightarrow> datetime list \<Rightarrow> parsed \<Rightarrow> nat list \<Rightarrow> int \<Rightarrow> datetime \<Rightarrow> py_error + prediction" where
  "predict_date uid dates p indices estimated_cycle_length d =
     (case governing_cycle (cycle_starts p) indices estimated_cycle_length d of
        Inl e \<Rightarrow> Inl e
      | Inr (cycle_start, cycle_start_idx) \<Rightarrow>
          let cycle_day0 = d - cycle_start + 1 in
          (case current_cycle_length dates indices estimated_cycle_length cycle_start cycle_start_idx of
             Inl e \<Rightarrow> Inl e
           | Inr ccl \<Rightarrow>
               let menstrual_duration =
                     (case period_lengths p cycle_start of Some n \<Rightarrow> n | None \<Rightarrow> 5);
                   b = phase_ranges menstrual_duration ccl (fertile_windows p cycle_start)
               in if ccl = 0 then Inl ZeroDivisionError
                  else
                    let cycle_day_within_phase = day_within_cycle cycle_day0 ccl in
                    Inr \<lparr>user_id = uid, date = d, start_date = cycle_start,
                         predicted_phase = phase_of_day b cycle_day_within_phase,
                         cycle_day = cycle_day_within_phase\<rparr>))"

fun predict_dates ::
  "string \<Rightarrow> datetime list \<Rightarrow> parsed \<Rightarrow> nat list \<Rightarrow> int \<Rightarrow> datetime list \<Rightarrow> py_error + prediction list" where
  "predict_dates uid dates p indices est [] = Inr []"
| "predict_dates uid dates p indices est (d # ds) =
     (case predict_date uid dates p indices est d of
        Inl e \<Rightarrow> Inl e
      | Inr x \<Rightarrow>
          (case predict_dates uid dates p indices est ds of
             Inl e \<Rightarrow> Inl e
           | Inr xs \<Rightarrow> Inr (x # xs)))"

text \<open>\<^verbatim>\<open>[datetime.strptime(d, '%Y-%m-%d') for d in dates]\<close>\<close>

fun parse_dates :: "string list \<Rightarrow> py_error + datetime list" where
  "parse_dates [] = Inr []"
| "parse_dates (s # ss) =
     (case strptime s of
        Inl e \<Rightarrow> Inl e
      | Inr d \<Rightarrow> (case parse_dates ss of Inl e \<Rightarrow> Inl e | Inr ds \<Rightarrow> Inr (d # ds)))"

text \<open>
  \<^verbatim>\<open>predict_menstrual_phases(user_id, supabase, menstrual_data, default_cycle_length)\<close>.
  \<open>hr_rows\<close> are the values of column \<^verbatim>\<open>date\<close> of the user's rows of \<^verbatim>\<open>hr_data\<close>, in
  the order of the query (ascending by date). The result \<open>Inr\<close> is the list
  \<^verbatim>\<open>predictions\<close> that step 6 stores.
\<close>

definition predict_menstrual_phases ::
  "string \<Rightarrow> string list \<Rightarrow> menstrual_data option \<Rightarrow> int \<Rightarrow> failure + prediction list" where
  "predict_menstrual_phases uid hr_rows menstrual_data default_cycle_length =
     (if hr_rows = [] then Inl NoHRData
      else
        (case parse_dates hr_rows of
           Inl e \<Rightarrow> Inl (Raised e)
         | Inr dates \<Rightarrow>
             (case menstrual_data of
                None \<Rightarrow> Inl NoMenstrualData
              | Some md \<Rightarrow>
                  if is_empty_dict md then Inl NoMenstrualData
                  else if get_cycle_summaries md = [] then Inl NoCycleSummaries
                  else
                    (case normalized_history (get_cycle_summaries md) of
                       Inl f \<Rightarrow> Inl f
                     | Inr p \<Rightarrow>
                         let estimated_cycle_length =
                               estimate_cycle_length (cycle_starts p) default_cycle_length;
                             indices = cycle_start_indices dates (cycle_starts p)
                         in if indices = [] then Inl NoCycleStartsMatch
                            else
                              (case predict_dates uid dates p indices estimated_cycle_length dates of
                                 Inl e \<Rightarrow> Inl (Raised e)
                               | Inr predictions \<Rightarrow> Inr predictions)))))"

subsection \<open>The single-date variant\<close>

record current_phase =
  current_date_str :: string
  last_cycle_start :: datetime
  current_predicted_phase :: phase
  current_cycle_day :: int
  estimated_length :: int

text \<open>
  \<^verbatim>\<open>calculate_current_phase(menstrual_data, current_date_str)\<close>. Every exception is
  caught and turned into an error result, here \<open>Raised\<close>; the fields of a successful
  result are \<^verbatim>\<open>date\<close>, \<^verbatim>\<open>start_date\<close>, \<^verbatim>\<open>predicted_phase\<close>, \<^verbatim>\<open>cycle_day\<close> and
  \<^verbatim>\<open>estimated_cycle_length\<close>.
\<close>

definition calculate_current_phase :: "menstrual_data option \<Rightarrow> string \<Rightarrow> failure + current_phase" where
  "calculate_current_phase menstrual_data date_str =
     (case strptime date_str of
        Inl e \<Rightarrow> Inl (Raised e)
      | Inr current_date \<Rightarrow>
          (case menstrual_data of
             None \<Rightarrow> Inl (Raised AttributeError)
           | Some md \<Rightarrow>
               if get_cycle_summaries md = [] then Inl NoCycleSummaries
               else
                 (case normalized_history (get_cycle_summaries md) of
                    Inl f \<Rightarrow> Inl f
                  | Inr p \<Rightarrow>
                      (case List.find (\<lambda>s. s \<le> current_date) (rev (cycle_starts p)) of
                         None \<Rightarrow> Inl NoCycleStartBefore
                       | Some cycle_start \<Rightarrow>
                           let cycle_day0 = current_date - cycle_start + 1;
                               est = estimate_cycle_length (cycle_starts p) 28;
                               menstrual_duration =
                                 (case period_lengths p cycle_start of Some n \<Rightarrow> n | None \<Rightarrow> 5);
                               b = phase_ranges menstrual_duration est (fertile_windows p cycle_start)
                           in if est = 0 then Inl (Raised ZeroDivisionError)
                              else
                                let cycle_day_within_phase = day_within_cycle cycle_day0 est in
                                Inr \<lparr>current_date_str = date_str,
                                     last_cycle_start = cycle_start,
                                     current_predicted_phase = phase_of_day b cycle_day_within_phase,
                                     current_cycle_day = cycle_day_within_phase,
                                     estimated_length = est\<rparr>))))"

subsection \<open>Notions used in the statements\<close>

text \<open>The ordering of the four boundaries that makes the day ranges a partition.\<close>

definition partition_invariant :: "phase_boundaries \<Rightarrow> bool" where
  "partition_invariant b =
     (0 < menstrual_end b \<and> menstrual_end b < follicular_end b
      \<and> follicular_end b < ovulatory_end b \<and> ovulatory_end b \<le> luteal_end b)"

text \<open>The ovulatory duration the code works with: the hinted length, or 7.\<close>

definition ovulatory_duration_of :: "(int \<times> int) option \<Rightarrow> int" where
  "ovulatory_duration_of fertile_window =
     (case fertile_window of Some (fertile_start, fertile_length) \<Rightarrow> fertile_length | None \<Rightarrow> 7)"




text \<open>The failures that report missing cycle data.\<close>

fun no_cycle_data :: "failure + 'a \<Rightarrow> bool" where
  "no_cycle_data (Inl NoMenstrualData) = True"
| "no_cycle_data (Inl NoCycleSummaries) = True"
| "no_cycle_data (Inl NoValidCycleStarts) = True"
| "no_cycle_data _ = False"

text \<open>The cycle summaries of the argument of a predictor; none for \<^verbatim>\<open>None\<close>.\<close>

definition summaries_of :: "menstrual_data option \<Rightarrow> cycle_summary list" where
  "summaries_of menstrual_data =
     (case menstrual_data of None \<Rightarrow> [] | Some md \<Rightarrow> get_cycle_summaries md)"

text \<open>Truncation of a real number to an integer, as \<^verbatim>\<open>int(x)\<close> does.\<close>

definition truncated :: "real \<Rightarrow> int" where
  "truncated x = (if 0 \<le> x then \<lfloor>x\<rfloor> else \<lceil>x\<rceil>)"

text \<open>
  The estimator in the words of the specification (section 4.2), for comparison with
  \<open>estimate_cycle_length\<close>: the day-deltas between each consecutive pair of starts, those in
  \<open>[15, 45]\<close> kept, their arithmetic mean truncated to an integer, the default when none
  is kept.
\<close>

definition spec_estimated_cycle_length :: "datetime list \<Rightarrow> int \<Rightarrow> int" where
  "spec_estimated_cycle_length starts default_cycle_length =
     (let deltas = map (\<lambda>(a, b). b - a) (zip starts (tl starts));
          kept = filter (\<lambda>g. 15 \<le> g \<and> g \<le> 45) deltas
      in if kept = [] then default_cycle_length
         else truncated (real_of_int (sum_list kept) / real (length kept)))"

text \<open>A text that \<open>strptime\<close> reads as a date.\<close>

definition parses :: "string \<Rightarrow> bool" where
  "parses s = (case strptime s of Inl e \<Rightarrow> False | Inr d \<Rightarrow> True)"

text \<open>Two starts in this order, at least \<open>min_cycle_length\<close> days apart.\<close>

definition spaced :: "datetime \<Rightarrow> datetime \<Rightarrow> bool" where
  "spaced a b = (b - a \<ge> min_cycle_length)"

text \<open>The luteal duration after the clamp to \<open>[10, 16]\<close>, as \<open>phase_ranges\<close> computes it.\<close>

definition luteal_of :: "int \<Rightarrow> int \<Rightarrow> (int \<times> int) option \<Rightarrow> int" where
  "luteal_of m L fw =
     (let (s, d) = ovulatory_window m L fw in max 10 (min 16 (L - (s + d - 1))))"

section \<open>Phase boundaries\<close>

lemma snd_ovulatory_window: "snd (ovulatory_window m L fw) = ovulatory_duration_of fw"
  by (simp add: ovulatory_window_def ovulatory_duration_of_def Let_def split: option.splits)

lemma luteal_bounds: "10 \<le> luteal_of m L fw \<and> luteal_of m L fw \<le> 16"
  by (simp add: luteal_of_def split: prod.splits)

text \<open>
  The boundaries depend on the first ovulatory start only through the clamped luteal
  duration.
\<close>

lemma phase_ranges_alt:
  "phase_ranges m L fw =
     (let d = ovulatory_duration_of fw;
          os = max (m + 1) (L - luteal_of m L fw - d + 1);
          fd = (if os - m - 1 < 1 then 1 else os - m - 1)
      in \<lparr>menstrual_end = m, follicular_end = m + fd, ovulatory_end = m + fd + d,
          luteal_end = L\<rparr>)"
proof -
  obtain s d where sd: "ovulatory_window m L fw = (s, d)"
    by (cases "ovulatory_window m L fw")
  with snd_ovulatory_window[of m L fw] have d: "d = ovulatory_duration_of fw"
    by simp
  show ?thesis
    unfolding phase_ranges_def luteal_of_def sd d by (simp add: Let_def)
qed

text \<open>
  The ordering of the boundaries holds exactly when the menstrual and ovulatory durations
  are positive and, with one follicular day, fit into the cycle.
\<close>

lemma partition_invariant_iff:
  "partition_invariant (phase_ranges m L fw) =
     (1 \<le> m \<and> 1 \<le> ovulatory_duration_of fw \<and> m + ovulatory_duration_of fw + 1 \<le> L)"
  using luteal_bounds[of m L fw]
  by (auto simp add: phase_ranges_alt partition_invariant_def Let_def max_def)

lemma luteal_end_phase_ranges: "luteal_end (phase_ranges m L fw) = L"
  by (simp add: phase_ranges_alt Let_def)

lemma phase_of_day_ranges:
  assumes "partition_invariant b" and "1 \<le> d" and "d \<le> luteal_end b"
  shows "(phase_of_day b d = Menstrual) = (d \<in> {1..menstrual_end b})"
    and "(phase_of_day b d = Follicular) = (d \<in> {menstrual_end b + 1..follicular_end b})"
    and "(phase_of_day b d = Ovulatory) = (d \<in> {follicular_end b + 1..ovulatory_end b})"
    and "(phase_of_day b d = Luteal) = (d \<in> {ovulatory_end b + 1..luteal_end b})"
  using assms by (auto simp add: phase_of_day_def partition_invariant_def)

text \<open>
  Claim C1, as amended. The claim as written fails: a period of 8 days in a cycle of 15
  days without fertile window gives the boundaries 8, 9, 16, 15, so the ovulatory range
  ends after the cycle (two records 15 days apart with \<^verbatim>\<open>periodLength\<close> 8 reach the
  code with these values; the last day of that cycle is reported Ovulatory). What holds:
  whenever the menstrual duration is at least 1, the ovulatory duration (the hinted
  length, 7 without hint) is at least 1 and the menstrual duration, one follicular day and
  the ovulatory duration fit into the cycle length, the boundaries satisfy \<open>0 < menstrual_end < follicular_end < ovulatory_end \<le> luteal_end\<close>,
  \<open>luteal_end\<close> is the cycle length, and every day of \<open>[1, cycle_length]\<close> lies in the
  range of exactly the phase it is given. (By \<open>partition_invariant_iff\<close> the three
  conditions are also necessary for the ordering.)
\<close>

theorem phase_ranges_partition:
  assumes "1 \<le> m"
    and "1 \<le> ovulatory_duration_of fw"
    and "m + ovulatory_duration_of fw + 1 \<le> L"
  shows "partition_invariant (phase_ranges m L fw)
    \<and> luteal_end (phase_ranges m L fw) = L
    \<and> (\<forall>d \<in> {1..L}.
          (phase_of_day (phase_ranges m L fw) d = Menstrual)
            = (d \<in> {1..menstrual_end (phase_ranges m L fw)})
        \<and> (phase_of_day (phase_ranges m L fw) d = Follicular)
            = (d \<in> {menstrual_end (phase_ranges m L fw) + 1..follicular_end (phase_ranges m L fw)})
        \<and> (phase_of_day (phase_ranges m L fw) d = Ovulatory)
            = (d \<in> {follicular_end (phase_ranges m L fw) + 1..ovulatory_end (phase_ranges m L fw)})
        \<and> (phase_of_day (phase_ranges m L fw) d = Luteal)
            = (d \<in> {ovulatory_end (phase_ranges m L fw) + 1..luteal_end (phase_ranges m L fw)}))"
proof -
  have inv: "partition_invariant (phase_ranges m L fw)"
    using assms by (simp add: partition_invariant_iff)
  have le: "luteal_end (phase_ranges m L fw) = L"
    by (rule luteal_end_phase_ranges)
  show ?thesis
    using inv le phase_of_day_ranges[OF inv] by simp
qed

theorem phase_ranges_partition_witness:
  "(1::int) \<le> 5 \<and> 1 \<le> ovulatory_duration_of None \<and> 5 + ovulatory_duration_of None + 1 \<le> (28::int)
   \<and> partition_invariant (phase_ranges 5 28 None)
   \<and> luteal_end (phase_ranges 5 28 None) = 28
   \<and> (phase_of_day (phase_ranges 5 28 None) 12 = Ovulatory)
       = (12 \<in> {follicular_end (phase_ranges 5 28 None) + 1..ovulatory_end (phase_ranges 5 28 None)})"
  using phase_ranges_partition[of 5 None 28] by (simp add: ovulatory_duration_of_def)

theorem phase_ranges_partition_counterexample:
  "\<not> partition_invariant (phase_ranges 8 15 None)
   \<and> phase_ranges 8 15 None
       = \<lparr>menstrual_end = 8, follicular_end = 9, ovulatory_end = 16, luteal_end = 15\<rparr>
   \<and> current_cycle_length [ymd2ord 2024 1 1, ymd2ord 2024 1 15, ymd2ord 2024 1 16] [0, 2] 15
        (ymd2ord 2024 1 1) 0 = Inr 15
   \<and> predict_menstrual_phases ''user'' [''2024-01-01'', ''2024-01-15'', ''2024-01-16'']
       (Some \<lparr>cycleSummaries =
                Some [\<lparr>startDate = Some ''2024-01-01'', periodLength = Some 8,
                       fertileWindowStart = None, lengthOfFertileWindow = None\<rparr>,
                      \<lparr>startDate = Some ''2024-01-16'', periodLength = Some 8,
                       fertileWindowStart = None, lengthOfFertileWindow = None\<rparr>],
              other_keys = False\<rparr>) 28
     = Inr [\<lparr>user_id = ''user'', date = ymd2ord 2024 1 1, start_date = ymd2ord 2024 1 1,
              predicted_phase = Menstrual, cycle_day = 1\<rparr>,
            \<lparr>user_id = ''user'', date = ymd2ord 2024 1 15, start_date = ymd2ord 2024 1 1,
              predicted_phase = Ovulatory, cycle_day = 15\<rparr>,
            \<lparr>user_id = ''user'', date = ymd2ord 2024 1 16, start_date = ymd2ord 2024 1 16,
              predicted_phase = Menstrual, cycle_day = 1\<rparr>]"
proof -
  have "phase_ranges 8 15 None
       = \<lparr>menstrual_end = 8, follicular_end = 9, ovulatory_end = 16, luteal_end = 15\<rparr>"
    by (simp add: phase_ranges_def ovulatory_window_def int_of_quotient_def)
  moreover from this have "\<not> partition_invariant (phase_ranges 8 15 None)"
    by (simp add: partition_invariant_def)
  moreover have "current_cycle_length [ymd2ord 2024 1 1, ymd2ord 2024 1 15, ymd2ord 2024 1 16]
        [0, 2] 15 (ymd2ord 2024 1 1) 0 = Inr 15"
    by code_simp
  moreover have "predict_menstrual_phases ''user'' [''2024-01-01'', ''2024-01-15'', ''2024-01-16'']
       (Some \<lparr>cycleSummaries =
                Some [\<lparr>startDate = Some ''2024-01-01'', periodLength = Some 8,
                       fertileWindowStart = None, lengthOfFertileWindow = None\<rparr>,
                      \<lparr>startDate = Some ''2024-01-16'', periodLength = Some 8,
                       fertileWindowStart = None, lengthOfFertileWindow = None\<rparr>],
              other_keys = False\<rparr>) 28
     = Inr [\<lparr>user_id = ''user'', date = ymd2ord 2024 1 1, start_date = ymd2ord 2024 1 1,
              predicted_phase = Menstrual, cycle_day = 1\<rparr>,
            \<lparr>user_id = ''user'', date = ymd2ord 2024 1 15, start_date = ymd2ord 2024 1 1,
              predicted_phase = Ovulatory, cycle_day = 15\<rparr>,
            \<lparr>user_id = ''user'', date = ymd2ord 2024 1 16, start_date = ymd2ord 2024 1 16,
              predicted_phase = Menstrual, cycle_day = 1\<rparr>]"
    by code_simp
  ultimately show ?thesis by blast
qed

section \<open>A worked cycle\<close>

text \<open>
  Claim C3. A cycle starting on 2025-01-01 with a period of 5 days, no fertile window and
  a cycle length of 28: the boundaries are 5, 10, 17 and 28, so the ovulatory range is
  the days 11 to 17; both predictors map 2025-01-25 to Luteal, cycle day 25, and the batch
  predictor maps 2025-01-01 to Menstrual, cycle day 1.
\<close>

theorem scenario_january_2025:
  "phase_ranges 5 28 None
     = \<lparr>menstrual_end = 5, follicular_end = 10, ovulatory_end = 17, luteal_end = 28\<rparr>
   \<and> (phase_of_day (phase_ranges 5 28 None) d = Ovulatory) = (11 \<le> d \<and> d \<le> 17)
   \<and> predict_menstrual_phases uid [''2025-01-01'', ''2025-01-25'']
       (Some \<lparr>cycleSummaries =
                Some [\<lparr>startDate = Some ''2025-01-01'', periodLength = Some 5,
                       fertileWindowStart = None, lengthOfFertileWindow = None\<rparr>],
              other_keys = False\<rparr>) 28
     = Inr [\<lparr>user_id = uid, date = ymd2ord 2025 1 1, start_date = ymd2ord 2025 1 1,
              predicted_phase = Menstrual, cycle_day = 1\<rparr>,
            \<lparr>user_id = uid, date = ymd2ord 2025 1 25, start_date = ymd2ord 2025 1 1,
              predicted_phase = Luteal, cycle_day = 25\<rparr>]
   \<and> calculate_current_phase
       (Some \<lparr>cycleSummaries =
                Some [\<lparr>startDate = Some ''2025-01-01'', periodLength = Some 5,
                       fertileWindowStart = None, lengthOfFertileWindow = None\<rparr>],
              other_keys = False\<rparr>) ''2025-01-25''
     = Inr \<lparr>current_date_str = ''2025-01-25'', last_cycle_start = ymd2ord 2025 1 1,
            current_predicted_phase = Luteal, current_cycle_day = 25, estimated_length = 28\<rparr>"
proof -
  have b: "phase_ranges 5 28 None
      = \<lparr>menstrual_end = 5, follicular_end = 10, ovulatory_end = 17, luteal_end = 28\<rparr>"
    by (simp add: phase_ranges_def ovulatory_window_def int_of_quotient_def)
  have o: "(phase_of_day (phase_ranges 5 28 None) d = Ovulatory) = (11 \<le> d \<and> d \<le> 17)"
    by (auto simp add: b phase_of_day_def)
  have batch: "predict_menstrual_phases uid [''2025-01-01'', ''2025-01-25'']
       (Some \<lparr>cycleSummaries =
                Some [\<lparr>startDate = Some ''2025-01-01'', periodLength = Some 5,
                       fertileWindowStart = None, lengthOfFertileWindow = None\<rparr>],
              other_keys = False\<rparr>) 28
     = Inr [\<lparr>user_id = uid, date = ymd2ord 2025 1 1, start_date = ymd2ord 2025 1 1,
              predicted_phase = Menstrual, cycle_day = 1\<rparr>,
            \<lparr>user_id = uid, date = ymd2ord 2025 1 25, start_date = ymd2ord 2025 1 1,
              predicted_phase = Luteal, cycle_day = 25\<rparr>]"
    by code_simp
  have single: "calculate_current_phase
       (Some \<lparr>cycleSummaries =
                Some [\<lparr>startDate = Some ''2025-01-01'', periodLength = Some 5,
                       fertileWindowStart = None, lengthOfFertileWindow = None\<rparr>],
              other_keys = False\<rparr>) ''2025-01-25''
     = Inr \<lparr>current_date_str = ''2025-01-25'', last_cycle_start = ymd2ord 2025 1 1,
            current_predicted_phase = Luteal, current_cycle_day = 25, estimated_length = 28\<rparr>"
    by code_simp
  from b o batch single show ?thesis by blast
qed

section \<open>Normalization of the cycle starts\<close>

lemma list_update_last: "xs \<noteq> [] \<Longrightarrow> xs[length xs - Suc 0 := c] = butlast xs @ [c]"
  by (induction xs rule: rev_induct) simp_all

text \<open>One more start at the end of the walk: appended, or put in place of the last kept start.\<close>

lemma filter_cycle_starts_snoc:
  "filtered \<noteq> [] \<Longrightarrow>
   filter_cycle_starts filtered (rest @ [c]) =
     (let kept = filter_cycle_starts filtered rest in
      if c - last kept \<ge> min_cycle_length then kept @ [c] else butlast kept @ [c])"
proof (induction rest arbitrary: filtered)
  case Nil
  then show ?case by (simp add: list_update_last)
next
  case (Cons a rest)
  show ?case
  proof (cases "a - last filtered \<ge> min_cycle_length")
    case True
    then show ?thesis using Cons.IH[of "filtered @ [a]"] by simp
  next
    case False
    have "filtered[length filtered - 1 := a] \<noteq> []" using Cons.prems by simp
    from Cons.IH[OF this] False show ?thesis by simp
  qed
qed

text \<open>
  The invariant of the walk: the kept starts are pairwise spaced as long as the starts
  still to come are sorted and not before the last kept one.
\<close>

lemma filter_cycle_starts_spaced:
  assumes "filtered \<noteq> []" and "successively spaced filtered"
    and "sorted (last filtered # rest)"
  shows "successively spaced (filter_cycle_starts filtered rest)
    \<and> filter_cycle_starts filtered rest \<noteq> []"
  using assms
proof (induction rest arbitrary: filtered)
  case Nil
  then show ?case by simp
next
  case (Cons c rest)
  have le: "last filtered \<le> c" and srt: "sorted (c # rest)"
    using Cons.prems(3) by simp_all
  show ?case
  proof (cases "c - last filtered \<ge> min_cycle_length")
    case True
    have "successively spaced (filtered @ [c])"
      using Cons.prems(1,2) True by (simp add: successively_append_iff spaced_def)
    moreover have "sorted (last (filtered @ [c]) # rest)" using srt by simp
    ultimately show ?thesis using Cons.IH[of "filtered @ [c]"] True by simp
  next
    case False
    let ?f = "butlast filtered @ [c]"
    have eq: "filtered[length filtered - 1 := c] = ?f"
      using Cons.prems(1) by (simp add: list_update_last)
    have bl: "successively spaced (butlast filtered)"
      using Cons.prems(1,2) successively_append_iff[of spaced "butlast filtered" "[last filtered]"]
      by simp
    have "butlast filtered \<noteq> [] \<Longrightarrow> spaced (last (butlast filtered)) (last filtered)"
      using Cons.prems(1,2) successively_append_iff[of spaced "butlast filtered" "[last filtered]"]
      by simp
    with le have "butlast filtered \<noteq> [] \<Longrightarrow> spaced (last (butlast filtered)) c"
      by (simp add: spaced_def)
    with bl have "successively spaced ?f"
      by (auto simp add: successively_append_iff)
    moreover have "sorted (last ?f # rest)" using srt by simp
    ultimately show ?thesis using Cons.IH[of ?f] False eq by simp
  qed
qed

lemma filtered_cycle_starts_spaced:
  assumes "starts \<noteq> []"
  shows "successively spaced (filtered_cycle_starts starts) \<and> filtered_cycle_starts starts \<noteq> []"
proof -
  have ne: "sort starts \<noteq> []" using assms by (metis length_sort length_0_conv)
  then have "sorted (last [hd (sort starts)] # tl (sort starts))"
    by simp
  then show ?thesis
    unfolding filtered_cycle_starts_def Let_def
    by (intro filter_cycle_starts_spaced) simp_all
qed

lemma successively_spaced_sorted_wrt: "successively spaced xs \<Longrightarrow> sorted_wrt spaced xs"
  by (subst successively_iff_sorted_wrt_strong[symmetric])
     (auto simp add: spaced_def min_cycle_length_def)

lemma spaced_strict: "successively spaced xs \<Longrightarrow> sorted_wrt (<) xs"
  using successively_spaced_sorted_wrt[of xs]
  by (auto intro: sorted_wrt_mono_rel[of xs spaced] simp add: spaced_def min_cycle_length_def)

lemma spaced_nth:
  "successively spaced xs \<Longrightarrow> Suc i < length xs \<Longrightarrow> xs ! Suc i - xs ! i \<ge> 15"
  using successively_spaced_sorted_wrt[of xs]
  by (simp add: sorted_wrt_iff_nth_less spaced_def min_cycle_length_def)

text \<open>
  Claim C5. The walk does not depend on the order of the input (it sorts first), keeps a
  single start as it is, and treats one more start \<open>c\<close> at the end of the sorted list as
  claimed: \<open>c\<close> replaces the last kept start when it is fewer than 15 days after it, and is
  appended otherwise. The raw starts 2024-01-01, 2024-01-10, 2024-02-05 normalize to
  2024-01-10, 2024-02-05.
\<close>

theorem normalization_later_start_wins:
  "filtered_cycle_starts starts = filtered_cycle_starts (sort starts)
   \<and> filtered_cycle_starts [s] = [s]
   \<and> (xs \<noteq> [] \<and> sorted (xs @ [c]) \<longrightarrow>
        filtered_cycle_starts (xs @ [c]) =
          (let kept = filtered_cycle_starts xs in
           if c - last kept < 15 then butlast kept @ [c] else kept @ [c]))
   \<and> map_sum id cycle_starts
        (normalized_history
          [\<lparr>startDate = Some ''2024-01-01'', periodLength = Some 5,
             fertileWindowStart = None, lengthOfFertileWindow = None\<rparr>,
           \<lparr>startDate = Some ''2024-01-10'', periodLength = Some 5,
             fertileWindowStart = None, lengthOfFertileWindow = None\<rparr>,
           \<lparr>startDate = Some ''2024-02-05'', periodLength = Some 5,
             fertileWindowStart = None, lengthOfFertileWindow = None\<rparr>])
       = Inr [ymd2ord 2024 1 10, ymd2ord 2024 2 5]"
proof -
  have order: "filtered_cycle_starts starts = filtered_cycle_starts (sort starts)"
    by (simp add: filtered_cycle_starts_def sorted_sort_id)
  have single: "filtered_cycle_starts [s] = [s]"
    by (simp add: filtered_cycle_starts_def)
  have step: "filtered_cycle_starts (xs @ [c]) =
          (let kept = filtered_cycle_starts xs in
           if c - last kept < 15 then butlast kept @ [c] else kept @ [c])"
    if ne: "xs \<noteq> []" and srt: "sorted (xs @ [c])"
  proof -
    have s1: "sort (xs @ [c]) = xs @ [c]" using srt by (simp add: sorted_sort_id)
    have "sorted xs" using srt by (simp add: sorted_append)
    then have s2: "sort xs = xs" by (simp add: sorted_sort_id)
    obtain x xs' where xs: "xs = x # xs'" using ne by (cases xs) auto
    show ?thesis
      unfolding filtered_cycle_starts_def s1 s2 Let_def
      using filter_cycle_starts_snoc[of "[x]" xs' c]
      by (auto simp add: xs Let_def min_cycle_length_def)
  qed
  have example: "map_sum id cycle_starts
        (normalized_history
          [\<lparr>startDate = Some ''2024-01-01'', periodLength = Some 5,
             fertileWindowStart = None, lengthOfFertileWindow = None\<rparr>,
           \<lparr>startDate = Some ''2024-01-10'', periodLength = Some 5,
             fertileWindowStart = None, lengthOfFertileWindow = None\<rparr>,
           \<lparr>startDate = Some ''2024-02-05'', periodLength = Some 5,
             fertileWindowStart = None, lengthOfFertileWindow = None\<rparr>])
       = Inr [ymd2ord 2024 1 10, ymd2ord 2024 2 5]"
    by code_simp
  from order single step example show ?thesis by blast
qed

theorem normalization_later_start_wins_witness:
  "[1, 10 :: int] \<noteq> [] \<and> sorted ([1, 10] @ [36 :: int])
   \<and> filtered_cycle_starts ([1, 10] @ [36]) = [10, 36]"
  using normalization_later_start_wins[of "[1, 10]" 1 "[1, 10]" 36]
  by (simp add: filtered_cycle_starts_def min_cycle_length_def)

lemma parse_cycle_summaries_total:
  "(\<And>c. c \<in> set cs \<Longrightarrow> \<not> skipped c \<Longrightarrow> parses (the (startDate c))) \<Longrightarrow>
   \<exists>p. parse_cycle_summaries cs acc = Inr p"
proof (induction cs arbitrary: acc)
  case Nil
  then show ?case by simp
next
  case (Cons c cs)
  show ?case
  proof (cases "skipped c")
    case True
    then show ?thesis using Cons by simp
  next
    case False
    then have "parses (the (startDate c))" using Cons.prems by simp
    then obtain d where "strptime (the (startDate c)) = Inr d"
      by (auto simp add: parses_def split: sum.splits)
    then show ?thesis using False Cons by simp
  qed
qed

lemma parse_cycle_summaries_length:
  "parse_cycle_summaries cs acc = Inr p \<Longrightarrow>
   length (cycle_starts p) = length (cycle_starts acc) + length (filter (\<lambda>c. \<not> skipped c) cs)"
proof (induction cs arbitrary: acc)
  case Nil
  then show ?case by simp
next
  case (Cons c cs)
  show ?case
  proof (cases "skipped c")
    case True
    then show ?thesis using Cons by simp
  next
    case False
    then obtain d where d: "strptime (the (startDate c)) = Inr d"
      using Cons.prems by (auto split: sum.splits)
    show ?thesis using False d Cons.prems Cons.IH by (auto simp del: fun_upd_apply)
  qed
qed

lemma normalized_history_InrD:
  assumes "normalized_history cs = Inr p"
  obtains p0 where "parse_cycle_summaries cs no_cycles = Inr p0" and "cycle_starts p0 \<noteq> []"
    and "p = p0\<lparr>cycle_starts := filtered_cycle_starts (cycle_starts p0)\<rparr>"
proof (cases "parse_cycle_summaries cs no_cycles")
  case (Inl e)
  with assms show ?thesis by (simp add: normalized_history_def)
next
  case (Inr p0)
  show ?thesis
  proof (cases "cycle_starts p0 = []")
    case True
    with Inr assms show ?thesis by (simp add: normalized_history_def)
  next
    case False
    with Inr assms have "p = p0\<lparr>cycle_starts := filtered_cycle_starts (cycle_starts p0)\<rparr>"
      by (simp add: normalized_history_def)
    with Inr False that show ?thesis by blast
  qed
qed

lemma normalized_history_spaced_aux:
  assumes "normalized_history cs = Inr p"
  shows "cycle_starts p \<noteq> [] \<and> successively spaced (cycle_starts p)"
proof -
  from assms obtain p0 where ne: "cycle_starts p0 \<noteq> []"
    and p: "p = p0\<lparr>cycle_starts := filtered_cycle_starts (cycle_starts p0)\<rparr>"
    by (rule normalized_history_InrD)
  from filtered_cycle_starts_spaced[OF ne] p show ?thesis by simp
qed

lemma normalized_history_total:
  assumes "\<exists>c \<in> set cs. \<not> skipped c"
    and "\<forall>c \<in> set cs. \<not> skipped c \<longrightarrow> parses (the (startDate c))"
  shows "\<exists>p. normalized_history cs = Inr p"
proof -
  obtain p0 where p0: "parse_cycle_summaries cs no_cycles = Inr p0"
    using parse_cycle_summaries_total[of cs no_cycles] assms(2) by blast
  have "filter (\<lambda>c. \<not> skipped c) cs \<noteq> []"
    using assms(1) by (simp add: filter_empty_conv)
  with parse_cycle_summaries_length[OF p0] have "cycle_starts p0 \<noteq> []"
    by auto
  with p0 show ?thesis by (simp add: normalized_history_def)
qed

text \<open>
  Claim C6. Whenever a raw list has a normalized history, the starts of that history are
  not empty, strictly increasing, and every two consecutive starts are at least 15 days
  apart. A raw list has a normalized history when at least one record has both
  \<^verbatim>\<open>startDate\<close> and \<^verbatim>\<open>periodLength\<close> and the records of that kind carry dates that
  \<open>strptime\<close> reads. (For any other raw list the parsing loop raises or finds no cycle
  start.)
\<close>

theorem normalized_history_spacing:
  "(normalized_history cs = Inr p \<longrightarrow>
      cycle_starts p \<noteq> []
      \<and> sorted_wrt (<) (cycle_starts p)
      \<and> (\<forall>i. Suc i < length (cycle_starts p)
             \<longrightarrow> cycle_starts p ! Suc i - cycle_starts p ! i \<ge> 15))
   \<and> ((\<exists>c \<in> set cs. \<not> skipped c)
        \<and> (\<forall>c \<in> set cs. \<not> skipped c \<longrightarrow> parses (the (startDate c)))
      \<longrightarrow> (\<exists>p. normalized_history cs = Inr p))"
proof -
  have inv: "cycle_starts p \<noteq> []
      \<and> sorted_wrt (<) (cycle_starts p)
      \<and> (\<forall>i. Suc i < length (cycle_starts p)
             \<longrightarrow> cycle_starts p ! Suc i - cycle_starts p ! i \<ge> 15)"
    if p: "normalized_history cs = Inr p"
  proof -
    from normalized_history_spaced_aux[OF p]
    have ne: "cycle_starts p \<noteq> []" and sp: "successively spaced (cycle_starts p)"
      by simp_all
    have "\<forall>i. Suc i < length (cycle_starts p)
            \<longrightarrow> cycle_starts p ! Suc i - cycle_starts p ! i \<ge> 15"
      using spaced_nth[OF sp] by simp
    with ne spaced_strict[OF sp] show ?thesis by simp
  qed
  have total: "\<exists>p. normalized_history cs = Inr p"
    if "(\<exists>c \<in> set cs. \<not> skipped c)
        \<and> (\<forall>c \<in> set cs. \<not> skipped c \<longrightarrow> parses (the (startDate c)))"
    using that normalized_history_total[of cs] by blast
  from inv total show ?thesis by blast
qed

theorem normalized_history_spacing_witness:
  "\<exists>p. normalized_history
          [\<lparr>startDate = Some ''2024-02-05'', periodLength = Some 5,
             fertileWindowStart = None, lengthOfFertileWindow = None\<rparr>,
           \<lparr>startDate = None, periodLength = Some 4,
             fertileWindowStart = None, lengthOfFertileWindow = None\<rparr>,
           \<lparr>startDate = Some ''2024-01-10'', periodLength = Some 6,
             fertileWindowStart = Some 12, lengthOfFertileWindow = Some 7\<rparr>,
           \<lparr>startDate = Some ''2024-01-01'', periodLength = Some 5,
             fertileWindowStart = None, lengthOfFertileWindow = None\<rparr>] = Inr p
       \<and> cycle_starts p \<noteq> [] \<and> sorted_wrt (<) (cycle_starts p)"
proof -
  let ?cs = "[\<lparr>startDate = Some ''2024-02-05'', periodLength = Some 5,
             fertileWindowStart = None, lengthOfFertileWindow = None\<rparr>,
           \<lparr>startDate = None, periodLength = Some 4,
             fertileWindowStart = None, lengthOfFertileWindow = None\<rparr>,
           \<lparr>startDate = Some ''2024-01-10'', periodLength = Some 6,
             fertileWindowStart = Some 12, lengthOfFertileWindow = Some 7\<rparr>,
           \<lparr>startDate = Some ''2024-01-01'', periodLength = Some 5,
             fertileWindowStart = None, lengthOfFertileWindow = None\<rparr>]"
  have h1: "\<exists>c \<in> set ?cs. \<not> skipped c" by code_simp
  have h2: "\<forall>c \<in> set ?cs. \<not> skipped c \<longrightarrow> parses (the (startDate c))" by code_simp
  from normalized_history_spacing[of ?cs, THEN conjunct2] h1 h2
  obtain p where p: "normalized_history ?cs = Inr p" by blast
  from normalized_history_spacing[of ?cs p, THEN conjunct1] p
  have "cycle_starts p \<noteq> [] \<and> sorted_wrt (<) (cycle_starts p)" by blast
  with p show ?thesis by blast
qed

section \<open>The estimated cycle length\<close>

lemma cycle_lengths_filter:
  "cycle_lengths starts =
     filter (\<lambda>g. 15 \<le> g \<and> g \<le> 45) (map (\<lambda>(a, b). b - a) (zip starts (tl starts)))"
  by (induction starts rule: cycle_lengths.induct) (simp_all add: Let_def)

lemma cycle_lengths_range: "g \<in> set (cycle_lengths starts) \<Longrightarrow> 15 \<le> g \<and> g \<le> 45"
  by (simp add: cycle_lengths_filter)

lemma sum_list_bounds:
  fixes gs :: "int list"
  assumes "\<And>g. g \<in> set gs \<Longrightarrow> lo \<le> g \<and> g \<le> hi"
  shows "lo * int (length gs) \<le> sum_list gs \<and> sum_list gs \<le> hi * int (length gs)"
  using assms
proof (induction gs)
  case Nil
  then show ?case by simp
next
  case (Cons a gs)
  have a: "lo \<le> a \<and> a \<le> hi" using Cons.prems by simp
  have "lo * int (length gs) \<le> sum_list gs \<and> sum_list gs \<le> hi * int (length gs)"
    using Cons.IH Cons.prems by simp
  with a show ?case by (simp add: algebra_simps)
qed

lemma truncated_quotient:
  assumes "0 \<le> a"
  shows "truncated (real_of_int a / real n) = a div int n"
proof -
  have "0 \<le> real_of_int a / real n" using assms by simp
  then have "truncated (real_of_int a / real n) = \<lfloor>real_of_int a / real_of_int (int n)\<rfloor>"
    by (simp add: truncated_def)
  also have "\<dots> = a div int n" by (rule floor_divide_of_int_eq)
  finally show ?thesis .
qed

lemma estimate_cycle_length_bounds:
  assumes "cycle_lengths starts \<noteq> []"
  shows "15 \<le> estimate_cycle_length starts dflt \<and> estimate_cycle_length starts dflt \<le> 45"
proof -
  let ?gs = "cycle_lengths starts"
  let ?n = "int (length ?gs)"
  have n: "0 < ?n" using assms by simp
  have b: "15 * ?n \<le> sum_list ?gs \<and> sum_list ?gs \<le> 45 * ?n"
    using sum_list_bounds[of ?gs 15 45] cycle_lengths_range by blast
  have "(15 * ?n) div ?n \<le> sum_list ?gs div ?n"
    using b n by (intro zdiv_mono1) simp_all
  then have "15 \<le> sum_list ?gs div ?n"
    using n by simp
  moreover have "sum_list ?gs div ?n \<le> (45 * ?n) div ?n"
    using b n by (intro zdiv_mono1) simp_all
  then have "sum_list ?gs div ?n \<le> 45"
    using n by simp
  ultimately show ?thesis using assms by (simp add: estimate_cycle_length_def Let_def)
qed

lemma estimate_cycle_length_positive:
  "0 < dflt \<Longrightarrow> 0 < estimate_cycle_length starts dflt"
  using estimate_cycle_length_bounds[of starts dflt]
  by (cases "cycle_lengths starts = []") (simp_all add: estimate_cycle_length_def)

text \<open>
  Claim C8. The estimate of the code is the estimate in the words of the specification:
  the mean, truncated to an integer, of the day-deltas between consecutive starts that lie
  in \<open>[15, 45]\<close>, and the default when no delta qualifies; with the default 28 a history of
  one record (or none) gives 28.
\<close>

theorem estimate_is_truncated_mean:
  "estimate_cycle_length starts dflt = spec_estimated_cycle_length starts dflt
   \<and> estimate_cycle_length [s] 28 = 28
   \<and> estimate_cycle_length [] 28 = 28"
proof -
  let ?gs = "cycle_lengths starts"
  have "0 \<le> sum_list ?gs"
    using sum_list_bounds[of ?gs 15 45] cycle_lengths_range by force
  then have "truncated (real_of_int (sum_list ?gs) / real (length ?gs)) = sum_list ?gs div int (length ?gs)"
    by (rule truncated_quotient)
  then have "estimate_cycle_length starts dflt = spec_estimated_cycle_length starts dflt"
    by (simp add: estimate_cycle_length_def spec_estimated_cycle_length_def Let_def
        cycle_lengths_filter[symmetric])
  then show ?thesis by (simp add: estimate_cycle_length_def)
qed

section \<open>Fertile-window hints\<close>





lemma get_cycle_summaries_update [simp]:
  "get_cycle_summaries (md\<lparr>cycleSummaries := Some cs\<rparr>) = cs"
  by (simp add: get_cycle_summaries_def)

lemma is_empty_dict_update [simp]:
  "is_empty_dict (md\<lparr>cycleSummaries := Some cs\<rparr>) = False"
  by (simp add: is_empty_dict_def)









section \<open>No cycle data\<close>

lemma parse_cycle_summaries_all_skipped:
  "\<forall>c \<in> set cs. skipped c \<Longrightarrow> parse_cycle_summaries cs acc = Inr acc"
  by (induction cs) simp_all

lemma normalized_history_all_skipped:
  "\<forall>c \<in> set cs. skipped c \<Longrightarrow> normalized_history cs = Inl NoValidCycleStarts"
  by (simp add: normalized_history_def parse_cycle_summaries_all_skipped no_cycles_def)

lemma parse_dates_total:
  "\<forall>s \<in> set ss. parses s \<Longrightarrow> \<exists>ds. parse_dates ss = Inr ds"
proof (induction ss)
  case Nil
  show ?case by simp
next
  case (Cons s ss)
  then obtain d ds where "strptime s = Inr d" "parse_dates ss = Inr ds"
    by (auto simp add: parses_def split: sum.splits)
  then show ?case by simp
qed

text \<open>
  Claim C9, as amended. The claim as written fails when the batch has no target dates:
  the batch predictor then returns on its first check, reporting missing HR data, whatever
  the cycle records are. What holds: when no cycle record has both \<^verbatim>\<open>startDate\<close> and
  \<^verbatim>\<open>periodLength\<close> (or there are no records at all), neither predictor produces a
  prediction; and when, in addition, the batch has at least one target date and all target
  dates are well-formed, the batch predictor reports missing cycle data (one of the three
  messages about menstrual data, cycle summaries or valid cycle starts, and an early
  return); the single-date variant does so, as an error result, for a well-formed date and
  an argument other than \<^verbatim>\<open>None\<close>.
\<close>

theorem no_cycle_data_reported:
  assumes "\<forall>c \<in> set (summaries_of md). skipped c"
  shows "isl (predict_menstrual_phases uid hr_rows md dflt)
    \<and> (hr_rows \<noteq> [] \<and> (\<forall>s \<in> set hr_rows. parses s)
          \<longrightarrow> no_cycle_data (predict_menstrual_phases uid hr_rows md dflt))
    \<and> isl (calculate_current_phase md date_str)
    \<and> (md \<noteq> None \<and> parses date_str \<longrightarrow> no_cycle_data (calculate_current_phase md date_str))
    \<and> predict_menstrual_phases uid [] md dflt = Inl NoHRData"
proof -
  have nh: "normalized_history (get_cycle_summaries m) = Inl NoValidCycleStarts" if "md = Some m" for m
    using assms that by (intro normalized_history_all_skipped) (simp add: summaries_of_def)
  have 1: "isl (predict_menstrual_phases uid hr_rows md dflt)"
    using nh by (auto simp add: predict_menstrual_phases_def split: sum.splits option.splits)
  have 2: "no_cycle_data (predict_menstrual_phases uid hr_rows md dflt)"
    if "hr_rows \<noteq> []" "\<forall>s \<in> set hr_rows. parses s"
  proof -
    from parse_dates_total[OF that(2)] obtain ds where "parse_dates hr_rows = Inr ds" ..
    with that(1) nh show ?thesis
      by (auto simp add: predict_menstrual_phases_def split: option.splits)
  qed
  have 3: "isl (calculate_current_phase md date_str)"
    using nh by (auto simp add: calculate_current_phase_def split: sum.splits option.splits)
  have 4: "no_cycle_data (calculate_current_phase md date_str)" if "md \<noteq> None" "parses date_str"
  proof -
    from that(2) obtain d where "strptime date_str = Inr d"
      by (auto simp add: parses_def split: sum.splits)
    with that(1) nh show ?thesis
      by (auto simp add: calculate_current_phase_def split: option.splits)
  qed
  have 5: "predict_menstrual_phases uid [] md dflt = Inl NoHRData"
    by (simp add: predict_menstrual_phases_def)
  from 1 2 3 4 5 show ?thesis by blast
qed

theorem no_cycle_data_reported_witness:
  "no_cycle_data (predict_menstrual_phases ''user'' [''2025-01-01'', ''2025-01-02'']
     (Some \<lparr>cycleSummaries =
              Some [\<lparr>startDate = None, periodLength = Some 5,
                     fertileWindowStart = None, lengthOfFertileWindow = None\<rparr>,
                    \<lparr>startDate = Some ''2025-01-01'', periodLength = None,
                     fertileWindowStart = None, lengthOfFertileWindow = None\<rparr>],
            other_keys = False\<rparr>) 28)
   \<and> no_cycle_data (calculate_current_phase
     (Some \<lparr>cycleSummaries =
              Some [\<lparr>startDate = None, periodLength = Some 5,
                     fertileWindowStart = None, lengthOfFertileWindow = None\<rparr>,
                    \<lparr>startDate = Some ''2025-01-01'', periodLength = None,
                     fertileWindowStart = None, lengthOfFertileWindow = None\<rparr>],
            other_keys = False\<rparr>) ''2025-04-10'')"
proof -
  let ?md = "Some \<lparr>cycleSummaries =
              Some [\<lparr>startDate = None, periodLength = Some 5,
                     fertileWindowStart = None, lengthOfFertileWindow = None\<rparr>,
                    \<lparr>startDate = Some ''2025-01-01'', periodLength = None,
                     fertileWindowStart = None, lengthOfFertileWindow = None\<rparr>],
            other_keys = False\<rparr>"
  have h: "\<forall>c \<in> set (summaries_of ?md). skipped c" by code_simp
  have d: "\<forall>s \<in> set [''2025-01-01'', ''2025-01-02'']. parses s" by code_simp
  have c: "parses ''2025-04-10''" by code_simp
  from no_cycle_data_reported[OF h, of "''user''" "[''2025-01-01'', ''2025-01-02'']" 28 "''2025-04-10''"]
    d c
  show ?thesis by simp
qed

theorem no_cycle_data_reported_counterexample:
  "\<not> no_cycle_data (predict_menstrual_phases ''user'' []
     (Some \<lparr>cycleSummaries =
              Some [\<lparr>startDate = None, periodLength = None,
                     fertileWindowStart = None, lengthOfFertileWindow = None\<rparr>],
            other_keys = False\<rparr>) 28)
   \<and> predict_menstrual_phases ''user'' []
     (Some \<lparr>cycleSummaries =
              Some [\<lparr>startDate = None, periodLength = None,
                     fertileWindowStart = None, lengthOfFertileWindow = None\<rparr>],
            other_keys = False\<rparr>) 28 = Inl NoHRData"
  by (simp add: predict_menstrual_phases_def)

section \<open>Cycle starts as indices into the dates\<close>

lemma first_index_from_Some:
  "first_index_from i ds s = Some k \<Longrightarrow> i \<le> k \<and> k - i < length ds \<and> ds ! (k - i) \<ge> s"
proof (induction ds arbitrary: i)
  case Nil
  then show ?case by simp
next
  case (Cons d ds)
  show ?case
  proof (cases "d \<ge> s")
    case True
    with Cons.prems show ?thesis by simp
  next
    case False
    with Cons.prems have "first_index_from (Suc i) ds s = Some k" by simp
    from Cons.IH[OF this] have "Suc i \<le> k" "k - Suc i < length ds" "ds ! (k - Suc i) \<ge> s"
      by simp_all
    moreover from \<open>Suc i \<le> k\<close> have "k - i = Suc (k - Suc i)" by simp
    ultimately show ?thesis by simp
  qed
qed

lemma first_index_from_mono:
  "s \<le> s' \<Longrightarrow> first_index_from i ds s' = Some k' \<Longrightarrow>
   \<exists>k \<le> k'. first_index_from i ds s = Some k"
proof (induction ds arbitrary: i)
  case Nil
  then show ?case by simp
next
  case (Cons d ds)
  show ?case
  proof (cases "d \<ge> s")
    case True
    with Cons.prems first_index_from_Some[OF Cons.prems(2)] show ?thesis by simp
  next
    case False
    with Cons.prems have "\<not> d \<ge> s'" by simp
    with Cons.prems have "first_index_from (Suc i) ds s' = Some k'" by simp
    from Cons.IH[OF Cons.prems(1) this] False show ?thesis by simp
  qed
qed

lemma first_index_from_None:
  "s \<le> s' \<Longrightarrow> first_index_from i ds s = None \<Longrightarrow> first_index_from i ds s' = None"
  using first_index_from_mono[of s s' i ds] by (cases "first_index_from i ds s'") auto

lemma cycle_start_indices_none:
  "\<forall>s \<in> set starts. first_index_from 0 dates s = None \<Longrightarrow> cycle_start_indices dates starts = []"
  by (induction starts) simp_all

text \<open>For sorted starts the indices are those of a prefix of the starts, in order.\<close>

lemma cycle_start_indices_aligned:
  assumes "sorted starts"
  shows "length (cycle_start_indices dates starts) \<le> length starts
    \<and> (\<forall>j < length (cycle_start_indices dates starts).
          first_index_from 0 dates (starts ! j) = Some (cycle_start_indices dates starts ! j))
    \<and> sorted (cycle_start_indices dates starts)"
  using assms
proof (induction starts)
  case Nil
  then show ?case by simp
next
  case (Cons s ss)
  have le: "\<forall>x \<in> set ss. s \<le> x" and srt: "sorted ss" using Cons.prems by simp_all
  show ?case
  proof (cases "first_index_from 0 dates s")
    case None
    with le have "\<forall>x \<in> set ss. first_index_from 0 dates x = None"
      using first_index_from_None by blast
    then have "cycle_start_indices dates ss = []" by (rule cycle_start_indices_none)
    with None show ?thesis by simp
  next
    case (Some i)
    let ?ix = "cycle_start_indices dates ss"
    from Cons.IH[OF srt] have len: "length ?ix \<le> length ss"
      and al: "\<forall>j < length ?ix. first_index_from 0 dates (ss ! j) = Some (?ix ! j)"
      and so: "sorted ?ix" by simp_all
    have eq: "cycle_start_indices dates (s # ss) = i # ?ix" using Some by simp
    have lower: "i \<le> x" if "x \<in> set ?ix" for x
    proof -
      from that obtain j where j: "j < length ?ix" "x = ?ix ! j" by (auto simp add: in_set_conv_nth)
      with al have f: "first_index_from 0 dates (ss ! j) = Some x" by simp
      from j len have "ss ! j \<in> set ss" by simp
      with le have "s \<le> ss ! j" by simp
      from first_index_from_mono[OF this f] Some show ?thesis by simp
    qed
    have "\<forall>j < length (i # ?ix). first_index_from 0 dates ((s # ss) ! j) = Some ((i # ?ix) ! j)"
    proof (intro allI impI)
      fix j assume "j < length (i # ?ix)"
      then show "first_index_from 0 dates ((s # ss) ! j) = Some ((i # ?ix) ! j)"
        using Some al by (cases j) simp_all
    qed
    with len so lower show ?thesis unfolding eq by simp
  qed
qed

lemma cycle_start_indices_date:
  assumes "sorted starts" and "j < length (cycle_start_indices dates starts)"
  shows "cycle_start_indices dates starts ! j < length dates
    \<and> dates ! (cycle_start_indices dates starts ! j) \<ge> starts ! j
    \<and> j < length starts"
proof -
  from cycle_start_indices_aligned[OF assms(1), of dates] assms(2)
  have f: "first_index_from 0 dates (starts ! j) = Some (cycle_start_indices dates starts ! j)"
    and l: "j < length starts" by simp_all
  from first_index_from_Some[OF f] l show ?thesis by simp
qed

section \<open>The governing cycle and its length\<close>

lemma most_recent_start_Some:
  "most_recent_start zs d found = Some (cs, idx) \<Longrightarrow>
   found = Some (cs, idx) \<or> (\<exists>j < length zs. zs ! j = (idx, cs) \<and> cs \<le> d)"
proof (induction zs arbitrary: found)
  case Nil
  then show ?case by simp
next
  case (Cons z zs)
  obtain i s where z: "z = (i, s)" by (cases z)
  show ?case
  proof (cases "d \<ge> s")
    case True
    with Cons.prems z have "most_recent_start zs d (Some (s, i)) = Some (cs, idx)" by simp
    from Cons.IH[OF this] show ?thesis
    proof
      assume "Some (s, i) = Some (cs, idx)"
      with z True have "(z # zs) ! 0 = (idx, cs) \<and> cs \<le> d" by simp
      then show ?thesis by blast
    next
      assume "\<exists>j < length zs. zs ! j = (idx, cs) \<and> cs \<le> d"
      then obtain j where "j < length zs" "zs ! j = (idx, cs)" "cs \<le> d" by blast
      then have "Suc j < length (z # zs) \<and> (z # zs) ! Suc j = (idx, cs) \<and> cs \<le> d" by simp
      then show ?thesis by blast
    qed
  next
    case False
    with Cons.prems z show ?thesis by simp
  qed
qed

lemma most_recent_start_found: "most_recent_start zs d (Some x) \<noteq> None"
  by (induction zs arbitrary: x) auto

lemma most_recent_start_None:
  "most_recent_start zs d None = None \<Longrightarrow> zs = [] \<or> d < snd (hd zs)"
proof (cases zs)
  case Nil
  then show ?thesis by simp
next
  case (Cons z zs')
  assume n: "most_recent_start zs d None = None"
  obtain i s where z: "z = (i, s)" by (cases z)
  show ?thesis
  proof (cases "d \<ge> s")
    case True
    with n Cons z most_recent_start_found[of zs' d "(s, i)"] show ?thesis by simp
  next
    case False
    with Cons z show ?thesis by simp
  qed
qed

lemma most_recent_start_before:
  "d < s \<Longrightarrow> most_recent_start ((i, s) # zs) d None = None"
  by simp

lemma index_of_Some:
  "index_of xs x = Some p \<Longrightarrow> p < length xs \<and> xs ! p = x \<and> (\<forall>q < p. xs ! q \<noteq> x)"
proof (induction xs arbitrary: p)
  case Nil
  then show ?case by simp
next
  case (Cons y ys)
  show ?case
  proof (cases "y = x")
    case True
    with Cons.prems show ?thesis by simp
  next
    case False
    with Cons.prems obtain p' where p': "index_of ys x = Some p'" "p = Suc p'" by auto
    from Cons.IH[OF p'(1)] have ih: "p' < length ys" "ys ! p' = x" "\<forall>q < p'. ys ! q \<noteq> x"
      by simp_all
    have "\<forall>q < p. (y # ys) ! q \<noteq> x"
    proof (intro allI impI)
      fix q assume "q < p"
      with p'(2) ih(3) False show "(y # ys) ! q \<noteq> x" by (cases q) simp_all
    qed
    with ih p'(2) show ?thesis by simp
  qed
qed

lemma index_of_None: "index_of xs x = None \<Longrightarrow> x \<notin> set xs"
  by (induction xs) (auto split: if_splits)

lemma subscript_nat: "i < length xs \<Longrightarrow> subscript xs (int i) = Inr (xs ! i)"
  by (simp add: subscript_def)

lemma subscript_last: "xs \<noteq> [] \<Longrightarrow> subscript xs (- 1) = Inr (last xs)"
proof -
  assume ne: "xs \<noteq> []"
  then have l: "1 \<le> length xs" by (cases xs) simp_all
  then have "nat (int (length xs) + - 1) = length xs - 1" by simp
  with ne l show ?thesis by (simp add: subscript_def last_conv_nth)
qed

lemma subscript_Inr_mem: "subscript xs i = Inr x \<Longrightarrow> x \<in> set xs"
  by (auto simp add: subscript_def split: if_splits)

lemma current_cycle_length_cases:
  assumes "current_cycle_length dates ix est cs idx = Inr L"
  obtains (estimate) "L = est"
    | (next_start) p where "index_of ix idx = Some p" and "Suc p < length ix"
        and "ix ! Suc p < length dates" and "L = dates ! (ix ! Suc p) - cs"
    | (last_start) "index_of ix idx = None" and "ix \<noteq> []"
        and "last ix < length dates" and "L = dates ! last ix - cs"
proof (cases "index_of ix idx")
  case None
  show ?thesis
  proof (cases "ix = []")
    case True
    with None assms show ?thesis
      by (simp add: current_cycle_length_def subscript_def)
  next
    case False
    then have s: "subscript ix (- 1) = Inr (last ix)" by (rule subscript_last)
    from False have "(- 1 :: int) < int (length ix)" by simp
    with None s assms have r: "(case subscript dates (int (last ix)) of
             Inl e \<Rightarrow> Inl e | Inr d \<Rightarrow> Inr (d - cs)) = Inr L"
      by (simp add: current_cycle_length_def)
    then have "last ix < length dates"
      by (auto simp add: subscript_def split: if_splits)
    moreover from this r have "L = dates ! last ix - cs"
      by (simp add: subscript_nat)
    ultimately show ?thesis using None False last_start by blast
  qed
next
  case (Some p)
  show ?thesis
  proof (cases "Suc p < length ix")
    case False
    with Some assms have "L = est" by (simp add: current_cycle_length_def)
    then show ?thesis by (rule estimate)
  next
    case True
    have i: "int p + 1 = int (Suc p)" by simp
    from True have s: "subscript ix (int p + 1) = Inr (ix ! Suc p)"
      unfolding i by (rule subscript_nat)
    from True have "int p + 1 < int (length ix)" by simp
    with Some s assms have r: "(case subscript dates (int (ix ! Suc p)) of
             Inl e \<Rightarrow> Inl e | Inr d \<Rightarrow> Inr (d - cs)) = Inr L"
      by (simp add: current_cycle_length_def)
    then have "ix ! Suc p < length dates"
      by (auto simp add: subscript_def split: if_splits)
    moreover from this r have "L = dates ! (ix ! Suc p) - cs"
      by (simp add: subscript_nat)
    ultimately show ?thesis using Some True next_start by blast
  qed
qed

lemma governing_cycle_cases:
  assumes "governing_cycle starts ix est d = Inr (cs, idx)"
  obtains (recorded) j where "j < length ix" and "j < length starts" and "ix ! j = idx"
        and "starts ! j = cs" and "cs \<le> d"
    | (projected) "ix = [] \<or> d < starts ! 0" and "starts \<noteq> []" and "est \<noteq> 0" and "idx = 0"
        and "cs = starts ! 0 - ((starts ! 0 - d) div est + 1) * est"
proof (cases "most_recent_start (zip ix starts) d None")
  case (Some found)
  with assms have "found = (cs, idx)" by (simp add: governing_cycle_def)
  with Some most_recent_start_Some[of "zip ix starts" d None cs idx]
  obtain j where "j < length (zip ix starts)" "zip ix starts ! j = (idx, cs)" "cs \<le> d"
    by auto
  then have "j < length ix" "j < length starts" "ix ! j = idx" "starts ! j = cs" "cs \<le> d"
    by simp_all
  then show ?thesis by (rule recorded)
next
  case None
  have ne: "starts \<noteq> []"
  proof
    assume "starts = []"
    with None assms show False by (simp add: governing_cycle_def subscript_def)
  qed
  then have s0: "subscript starts 0 = Inr (starts ! 0)"
    using subscript_nat[of 0 starts] by simp
  from None s0 assms have e: "est \<noteq> 0"
    by (auto simp add: governing_cycle_def Let_def split: if_splits)
  from None s0 e assms have idx: "idx = 0"
    and cs: "cs = starts ! 0 - ((starts ! 0 - d) div est + 1) * est"
    by (auto simp add: governing_cycle_def Let_def minus_timedelta_def split: if_splits sum.splits)
  from most_recent_start_None[OF None] ne have "ix = [] \<or> d < starts ! 0"
    by (cases ix; cases starts) auto
  then show ?thesis using ne e idx cs by (rule projected)
qed

lemma projected_start_before:
  fixes first d est :: int
  assumes "d < first" and "0 < est"
  shows "first - ((first - d) div est + 1) * est < first"
    and "first - ((first - d) div est + 1) * est \<le> d"
proof -
  have "0 \<le> (first - d) div est" using assms by (simp add: pos_imp_zdiv_nonneg_iff)
  then have "1 * est \<le> ((first - d) div est + 1) * est"
    using assms(2) by (intro mult_right_mono) simp_all
  with assms(2) show "first - ((first - d) div est + 1) * est < first" by simp
  have m: "(first - d) mod est < est" using assms(2) by simp
  have eq: "est * ((first - d) div est) + (first - d) mod est = first - d"
    by (rule mult_div_mod_eq)
  have ex: "((first - d) div est + 1) * est = est * ((first - d) div est) + est"
    by (simp add: algebra_simps)
  from m eq ex have "first - d < ((first - d) div est + 1) * est"
    by linarith
  then show "first - ((first - d) div est + 1) * est \<le> d" by simp
qed

lemma used_cycle_length_nonneg:
  assumes srt: "sorted starts" and est: "0 < est"
    and g: "governing_cycle starts (cycle_start_indices dates starts) est d = Inr (cs, idx)"
    and c: "current_cycle_length dates (cycle_start_indices dates starts) est cs idx = Inr L"
  shows "0 \<le> L"
proof -
  let ?ix = "cycle_start_indices dates starts"
  have at: "dates ! (?ix ! k) \<ge> starts ! k \<and> k < length starts" if "k < length ?ix" for k
    using cycle_start_indices_date[OF srt that] by simp
  have so: "sorted ?ix" using cycle_start_indices_aligned[OF srt] by simp
  from g show ?thesis
  proof (cases rule: governing_cycle_cases)
    case (recorded j)
    from c show ?thesis
    proof (cases rule: current_cycle_length_cases)
      case estimate
      with est show ?thesis by simp
    next
      case (next_start p)
      from index_of_Some[OF next_start(1)] have p: "?ix ! p = idx" "\<forall>q < p. ?ix ! q \<noteq> idx"
        by simp_all
      have pj: "p \<le> j"
      proof (rule ccontr)
        assume "\<not> p \<le> j"
        then have "j < p" by simp
        with p(2) have "?ix ! j \<noteq> idx" by blast
        with recorded(3) show False by simp
      qed
      have "cs \<le> dates ! (?ix ! Suc p)"
      proof (cases "Suc p \<le> j")
        case True
        from so True recorded(1) have "?ix ! Suc p \<le> ?ix ! j" by (simp add: sorted_nth_mono)
        moreover from so next_start(2) have "?ix ! p \<le> ?ix ! Suc p" by (simp add: sorted_nth_mono)
        ultimately have "?ix ! Suc p = ?ix ! j" using p(1) recorded(3) by simp
        with at[OF recorded(1)] recorded(4) show ?thesis by simp
      next
        case False
        with pj have "p = j" by simp
        with at[OF next_start(2)] have "starts ! Suc j \<le> dates ! (?ix ! Suc p)" "Suc j < length starts"
          by simp_all
        moreover from srt this(2) have "starts ! j \<le> starts ! Suc j" by (simp add: sorted_nth_mono)
        ultimately show ?thesis using recorded(4) by simp
      qed
      with next_start(4) show ?thesis by simp
    next
      case last_start
      from index_of_None[OF last_start(1)] recorded(1,3) show ?thesis by auto
    qed
  next
    case projected
    have first: "starts ! 0 \<le> starts ! k" if "k < length starts" for k
      using srt that by (simp add: sorted_nth_mono)
    from c show ?thesis
    proof (cases rule: current_cycle_length_cases)
      case estimate
      with est show ?thesis by simp
    next
      case (next_start p)
      then have ne: "?ix \<noteq> []" by auto
      with projected(1) have "d < starts ! 0" by simp
      from projected_start_before(1)[OF this est] projected(5) have "cs < starts ! 0" by simp
      moreover from at[OF next_start(2)] first have "starts ! 0 \<le> dates ! (?ix ! Suc p)" by force
      ultimately show ?thesis using next_start(4) by simp
    next
      case last_start
      with projected(1) have "d < starts ! 0" by simp
      from projected_start_before(1)[OF this est] projected(5) have "cs < starts ! 0" by simp
      moreover have "length ?ix - 1 < length ?ix" using last_start(2) by simp
      from at[OF this] first last_start(2) have "starts ! 0 \<le> dates ! last ?ix"
        by (force simp add: last_conv_nth)
      ultimately show ?thesis using last_start(4) by simp
    qed
  qed
qed

lemma day_within_cycle_range:
  "0 < n \<Longrightarrow> 1 \<le> day_within_cycle c n \<and> day_within_cycle c n \<le> n"
proof -
  assume n: "0 < n"
  then have "0 \<le> c mod n" "c mod n < n" by simp_all
  with n show ?thesis by (auto simp add: day_within_cycle_def)
qed

lemma predict_date_InrD:
  assumes "predict_date uid dates p ix est d = Inr x"
  obtains cs idx L where "governing_cycle (cycle_starts p) ix est d = Inr (cs, idx)"
    and "current_cycle_length dates ix est cs idx = Inr L" and "L \<noteq> 0"
    and "date x = d" and "start_date x = cs" and "user_id x = uid"
    and "cycle_day x = day_within_cycle (d - cs + 1) L"
    and "predicted_phase x =
           phase_of_day
             (phase_ranges (case period_lengths p cs of Some n \<Rightarrow> n | None \<Rightarrow> 5) L
                (fertile_windows p cs))
             (day_within_cycle (d - cs + 1) L)"
proof (cases "governing_cycle (cycle_starts p) ix est d")
  case (Inl e)
  with assms show ?thesis by (simp add: predict_date_def)
next
  case (Inr g)
  obtain cs idx where g: "g = (cs, idx)" by (cases g)
  show ?thesis
  proof (cases "current_cycle_length dates ix est cs idx")
    case (Inl e)
    with assms Inr g show ?thesis by (simp add: predict_date_def)
  next
    case L: (Inr L)
    show ?thesis
    proof (cases "L = 0")
      case True
      with assms Inr g L show ?thesis by (simp add: predict_date_def Let_def)
    next
      case False
      with assms Inr g L have "x = \<lparr>user_id = uid, date = d, start_date = cs,
          predicted_phase = phase_of_day
             (phase_ranges (case period_lengths p cs of Some n \<Rightarrow> n | None \<Rightarrow> 5) L
                (fertile_windows p cs))
             (day_within_cycle (d - cs + 1) L),
          cycle_day = day_within_cycle (d - cs + 1) L\<rparr>"
        by (simp add: predict_date_def Let_def)
      then show ?thesis using that[of cs idx L] Inr g L False by simp
    qed
  qed
qed

lemma predict_dates_InrD:
  "predict_dates uid dates p ix est ds = Inr xs \<Longrightarrow> x \<in> set xs \<Longrightarrow>
   \<exists>d \<in> set ds. predict_date uid dates p ix est d = Inr x"
proof (induction ds arbitrary: xs)
  case Nil
  then show ?case by simp
next
  case (Cons d ds)
  from Cons.prems(1) obtain y ys where y: "predict_date uid dates p ix est d = Inr y"
    and ys: "predict_dates uid dates p ix est ds = Inr ys" and xs: "xs = y # ys"
    by (auto split: sum.splits)
  from Cons.prems(2) xs consider "x = y" | "x \<in> set ys" by auto
  then show ?case
  proof cases
    case 1
    with y show ?thesis by simp
  next
    case 2
    from Cons.IH[OF ys 2] show ?thesis by auto
  qed
qed

lemma predict_menstrual_phases_InrD:
  assumes "predict_menstrual_phases uid hr_rows md dflt = Inr xs"
  obtains dates p where "parse_dates hr_rows = Inr dates"
    and "normalized_history (summaries_of md) = Inr p"
    and "cycle_start_indices dates (cycle_starts p) \<noteq> []"
    and "predict_dates uid dates p (cycle_start_indices dates (cycle_starts p))
           (estimate_cycle_length (cycle_starts p) dflt) dates = Inr xs"
proof (cases "parse_dates hr_rows")
  case (Inl e)
  with assms show ?thesis by (simp add: predict_menstrual_phases_def split: if_splits)
next
  case dates: (Inr dates)
  show ?thesis
  proof (cases md)
    case None
    with assms dates show ?thesis by (simp add: predict_menstrual_phases_def split: if_splits)
  next
    case (Some m)
    show ?thesis
    proof (cases "normalized_history (get_cycle_summaries m)")
      case (Inl f)
      with assms dates Some show ?thesis
        by (simp add: predict_menstrual_phases_def split: if_splits)
    next
      case (Inr p)
      let ?ix = "cycle_start_indices dates (cycle_starts p)"
      let ?est = "estimate_cycle_length (cycle_starts p) dflt"
      from assms dates Some Inr have ne: "?ix \<noteq> []"
        by (auto simp add: predict_menstrual_phases_def Let_def split: if_splits)
      from assms dates Some Inr ne have "predict_dates uid dates p ?ix ?est dates = Inr xs"
        by (auto simp add: predict_menstrual_phases_def Let_def split: if_splits sum.splits)
      moreover from Some Inr have "normalized_history (summaries_of md) = Inr p"
        by (simp add: summaries_of_def)
      ultimately show ?thesis using that dates ne by blast
    qed
  qed
qed

lemma normalized_history_sorted:
  "normalized_history cs = Inr p \<Longrightarrow> sorted (cycle_starts p)"
  using normalized_history_spaced_aux[of cs p] spaced_strict[of "cycle_starts p"]
  by (simp add: strict_sorted_imp_sorted)

lemma calculate_current_phase_InrD:
  assumes "calculate_current_phase md date_str = Inr r"
  obtains d p where "strptime date_str = Inr d"
    and "normalized_history (summaries_of md) = Inr p"
    and "List.find (\<lambda>s. s \<le> d) (rev (cycle_starts p)) = Some (last_cycle_start r)"
    and "estimated_length r = estimate_cycle_length (cycle_starts p) 28"
    and "current_cycle_day r
           = day_within_cycle (d - last_cycle_start r + 1) (estimated_length r)"
proof (cases "strptime date_str")
  case (Inl e)
  with assms show ?thesis by (simp add: calculate_current_phase_def)
next
  case d: (Inr d)
  show ?thesis
  proof (cases md)
    case None
    with assms d show ?thesis by (simp add: calculate_current_phase_def)
  next
    case (Some m)
    show ?thesis
    proof (cases "normalized_history (get_cycle_summaries m)")
      case (Inl f)
      with assms d Some show ?thesis
        by (simp add: calculate_current_phase_def split: if_splits)
    next
      case (Inr p)
      show ?thesis
      proof (cases "List.find (\<lambda>s. s \<le> d) (rev (cycle_starts p))")
        case None
        with assms d Some Inr show ?thesis
          by (simp add: calculate_current_phase_def split: if_splits)
      next
        case found: (Some cs)
        from assms d Some Inr found
        have "last_cycle_start r = cs"
          and "estimated_length r = estimate_cycle_length (cycle_starts p) 28"
          and "current_cycle_day r
                 = day_within_cycle (d - cs + 1) (estimate_cycle_length (cycle_starts p) 28)"
          by (auto simp add: calculate_current_phase_def Let_def split: if_splits)
        moreover from Some Inr have "normalized_history (summaries_of md) = Inr p"
          by (simp add: summaries_of_def)
        ultimately show ?thesis using that[of d p] d found by simp
      qed
    qed
  qed
qed

text \<open>
  Claim C7. Every prediction of the batch predictor, for a positive default cycle length,
  reports as \<open>cycle_day\<close> the 1-based offset of its date from the governing cycle start,
  folded by the modulus of the cycle length \<open>L\<close> that the code used for that cycle, a
  remainder of zero giving \<open>L\<close>; it lies between 1 and \<open>L\<close>. (A cycle length of 0 raises
  \<^verbatim>\<open>ZeroDivisionError\<close>, so no prediction is emitted then; a negative one cannot arise.)
  The same holds for the result of the single-date variant with its estimated length.
\<close>

theorem cycle_day_within_cycle:
  "(predict_menstrual_phases uid hr_rows md dflt = Inr predictions \<and> 0 < dflt
      \<and> x \<in> set predictions \<longrightarrow>
      (\<exists>dates p idx L.
           parse_dates hr_rows = Inr dates
         \<and> normalized_history (summaries_of md) = Inr p
         \<and> governing_cycle (cycle_starts p) (cycle_start_indices dates (cycle_starts p))
               (estimate_cycle_length (cycle_starts p) dflt) (date x) = Inr (start_date x, idx)
         \<and> current_cycle_length dates (cycle_start_indices dates (cycle_starts p))
               (estimate_cycle_length (cycle_starts p) dflt) (start_date x) idx = Inr L
         \<and> cycle_day x =
               (if (date x - start_date x + 1) mod L \<noteq> 0
                then (date x - start_date x + 1) mod L else L)
         \<and> 1 \<le> cycle_day x \<and> cycle_day x \<le> L))
   \<and> (calculate_current_phase md' date_str = Inr r \<longrightarrow>
      (\<exists>d. strptime date_str = Inr d
         \<and> current_cycle_day r =
               (if (d - last_cycle_start r + 1) mod estimated_length r \<noteq> 0
                then (d - last_cycle_start r + 1) mod estimated_length r
                else estimated_length r)
         \<and> 1 \<le> current_cycle_day r \<and> current_cycle_day r \<le> estimated_length r))"
proof (intro conjI impI)
  assume a: "predict_menstrual_phases uid hr_rows md dflt = Inr predictions \<and> 0 < dflt
      \<and> x \<in> set predictions"
  from a obtain dates p where dates: "parse_dates hr_rows = Inr dates"
    and p: "normalized_history (summaries_of md) = Inr p"
    and run: "predict_dates uid dates p (cycle_start_indices dates (cycle_starts p))
           (estimate_cycle_length (cycle_starts p) dflt) dates = Inr predictions"
    by (auto elim: predict_menstrual_phases_InrD)
  let ?ix = "cycle_start_indices dates (cycle_starts p)"
  let ?est = "estimate_cycle_length (cycle_starts p) dflt"
  from a have xin: "x \<in> set predictions" and dpos: "0 < dflt" by simp_all
  from predict_dates_InrD[OF run xin] obtain d
    where "predict_date uid dates p ?ix ?est d = Inr x" by blast
  then obtain cs idx L where g: "governing_cycle (cycle_starts p) ?ix ?est d = Inr (cs, idx)"
    and c: "current_cycle_length dates ?ix ?est cs idx = Inr L" and nz: "L \<noteq> 0"
    and x: "date x = d" "start_date x = cs" "cycle_day x = day_within_cycle (d - cs + 1) L"
    by (rule predict_date_InrD)
  have "0 < ?est" using dpos by (rule estimate_cycle_length_positive)
  from used_cycle_length_nonneg[OF normalized_history_sorted[OF p] this g c] nz
  have pos: "0 < L" by simp
  from day_within_cycle_range[OF pos, of "d - cs + 1"] x
  have "1 \<le> cycle_day x \<and> cycle_day x \<le> L" by simp
  moreover have "cycle_day x =
       (if (date x - start_date x + 1) mod L \<noteq> 0 then (date x - start_date x + 1) mod L else L)"
    using x by (simp add: day_within_cycle_def)
  ultimately show "\<exists>dates p idx L.
           parse_dates hr_rows = Inr dates
         \<and> normalized_history (summaries_of md) = Inr p
         \<and> governing_cycle (cycle_starts p) (cycle_start_indices dates (cycle_starts p))
               (estimate_cycle_length (cycle_starts p) dflt) (date x) = Inr (start_date x, idx)
         \<and> current_cycle_length dates (cycle_start_indices dates (cycle_starts p))
               (estimate_cycle_length (cycle_starts p) dflt) (start_date x) idx = Inr L
         \<and> cycle_day x =
               (if (date x - start_date x + 1) mod L \<noteq> 0
                then (date x - start_date x + 1) mod L else L)
         \<and> 1 \<le> cycle_day x \<and> cycle_day x \<le> L"
    using dates p g c x by blast
next
  assume "calculate_current_phase md' date_str = Inr r"
  then obtain d p where d: "strptime date_str = Inr d"
    and "normalized_history (summaries_of md') = Inr p"
    and "List.find (\<lambda>s. s \<le> d) (rev (cycle_starts p)) = Some (last_cycle_start r)"
    and e: "estimated_length r = estimate_cycle_length (cycle_starts p) 28"
    and c: "current_cycle_day r
           = day_within_cycle (d - last_cycle_start r + 1) (estimated_length r)"
    by (rule calculate_current_phase_InrD)
  have "0 < estimated_length r"
    unfolding e by (rule estimate_cycle_length_positive) simp
  from day_within_cycle_range[OF this, of "d - last_cycle_start r + 1"] c d
  show "\<exists>d. strptime date_str = Inr d
         \<and> current_cycle_day r =
               (if (d - last_cycle_start r + 1) mod estimated_length r \<noteq> 0
                then (d - last_cycle_start r + 1) mod estimated_length r
                else estimated_length r)
         \<and> 1 \<le> current_cycle_day r \<and> current_cycle_day r \<le> estimated_length r"
    by (auto simp add: day_within_cycle_def)
qed

theorem cycle_day_within_cycle_witness:
  "\<exists>dates p idx L.
       parse_dates [''2024-01-01'', ''2024-02-05''] = Inr dates
     \<and> normalized_history
         [\<lparr>startDate = Some ''2024-01-01'', periodLength = Some 5,
            fertileWindowStart = None, lengthOfFertileWindow = None\<rparr>,
          \<lparr>startDate = Some ''2024-01-29'', periodLength = Some 4,
            fertileWindowStart = None, lengthOfFertileWindow = None\<rparr>] = Inr p
     \<and> governing_cycle (cycle_starts p) (cycle_start_indices dates (cycle_starts p))
           (estimate_cycle_length (cycle_starts p) 28) (ymd2ord 2024 2 5)
         = Inr (ymd2ord 2024 1 29, idx)
     \<and> current_cycle_length dates (cycle_start_indices dates (cycle_starts p))
           (estimate_cycle_length (cycle_starts p) 28) (ymd2ord 2024 1 29) idx = Inr L
     \<and> (1::int) \<le> 8 \<and> 8 \<le> L"
proof -
  let ?md = "Some \<lparr>cycleSummaries =
        Some [\<lparr>startDate = Some ''2024-01-01'', periodLength = Some 5,
            fertileWindowStart = None, lengthOfFertileWindow = None\<rparr>,
          \<lparr>startDate = Some ''2024-01-29'', periodLength = Some 4,
            fertileWindowStart = None, lengthOfFertileWindow = None\<rparr>], other_keys = False\<rparr>"
  let ?x1 = "\<lparr>user_id = ''user'', date = ymd2ord 2024 1 1, start_date = ymd2ord 2024 1 1,
              predicted_phase = Menstrual, cycle_day = 1\<rparr>"
  let ?x2 = "\<lparr>user_id = ''user'', date = ymd2ord 2024 2 5, start_date = ymd2ord 2024 1 29,
              predicted_phase = Follicular, cycle_day = 8\<rparr>"
  have run: "predict_menstrual_phases ''user'' [''2024-01-01'', ''2024-02-05''] ?md 28
      = Inr [?x1, ?x2]"
    by code_simp
  have s: "summaries_of ?md = [\<lparr>startDate = Some ''2024-01-01'', periodLength = Some 5,
            fertileWindowStart = None, lengthOfFertileWindow = None\<rparr>,
          \<lparr>startDate = Some ''2024-01-29'', periodLength = Some 4,
            fertileWindowStart = None, lengthOfFertileWindow = None\<rparr>]"
    by (simp add: summaries_of_def get_cycle_summaries_def)
  have prem: "predict_menstrual_phases ''user'' [''2024-01-01'', ''2024-02-05''] ?md 28
      = Inr [?x1, ?x2] \<and> (0::int) < 28 \<and> ?x2 \<in> set [?x1, ?x2]"
    using run by simp
  from cycle_day_within_cycle[where uid = "''user''" and hr_rows = "[''2024-01-01'', ''2024-02-05'']"
      and md = ?md and dflt = 28 and predictions = "[?x1, ?x2]" and x = ?x2,
      THEN conjunct1, rule_format, OF prem]
  obtain dates p idx L where d: "parse_dates [''2024-01-01'', ''2024-02-05''] = Inr dates"
    and p: "normalized_history (summaries_of ?md) = Inr p"
    and g: "governing_cycle (cycle_starts p) (cycle_start_indices dates (cycle_starts p))
           (estimate_cycle_length (cycle_starts p) 28) (date ?x2) = Inr (start_date ?x2, idx)"
    and c: "current_cycle_length dates (cycle_start_indices dates (cycle_starts p))
           (estimate_cycle_length (cycle_starts p) 28) (start_date ?x2) idx = Inr L"
    and r: "1 \<le> cycle_day ?x2" "cycle_day ?x2 \<le> L"
    by blast
  from g have g': "governing_cycle (cycle_starts p) (cycle_start_indices dates (cycle_starts p))
           (estimate_cycle_length (cycle_starts p) 28) (ymd2ord 2024 2 5)
         = Inr (ymd2ord 2024 1 29, idx)" by simp
  from c have c': "current_cycle_length dates (cycle_start_indices dates (cycle_starts p))
           (estimate_cycle_length (cycle_starts p) 28) (ymd2ord 2024 1 29) idx = Inr L" by simp
  from r have r': "(1::int) \<le> 8" "8 \<le> L" by simp_all
  from d p[unfolded s] g' c' r' show ?thesis by blast
qed

section \<open>Backward projection\<close>

lemma governing_cycle_before_first:
  assumes "d < first" and "est \<noteq> 0"
  shows "governing_cycle (first # rest) ix est d =
     (case minus_timedelta first (((first - d) div est + 1) * est) of
        Inl e \<Rightarrow> Inl e | Inr cs \<Rightarrow> Inr (cs, 0))"
proof -
  have "most_recent_start (zip ix (first # rest)) d None = None"
    using assms(1) by (cases ix) simp_all
  then show ?thesis using assms(2)
    by (simp add: governing_cycle_def subscript_def Let_def)
qed

lemma top_level_projection:
  assumes run: "predict_menstrual_phases uid hr_rows md dflt = Inr predictions"
    and p: "normalized_history (summaries_of md) = Inr p"
    and x: "x \<in> set predictions"
    and before: "date x < hd (cycle_starts p)"
  shows "start_date x = hd (cycle_starts p)
      - ((hd (cycle_starts p) - date x) div estimate_cycle_length (cycle_starts p) dflt + 1)
        * estimate_cycle_length (cycle_starts p) dflt"
proof -
  from run obtain dates p' where p': "normalized_history (summaries_of md) = Inr p'"
    and r: "predict_dates uid dates p' (cycle_start_indices dates (cycle_starts p'))
           (estimate_cycle_length (cycle_starts p') dflt) dates = Inr predictions"
    by (rule predict_menstrual_phases_InrD)
  from p p' have pp: "p' = p" by simp
  let ?ix = "cycle_start_indices dates (cycle_starts p)"
  let ?est = "estimate_cycle_length (cycle_starts p) dflt"
  from predict_dates_InrD[OF r x] pp obtain d
    where "predict_date uid dates p ?ix ?est d = Inr x" by blast
  then obtain cs idx where g: "governing_cycle (cycle_starts p) ?ix ?est d = Inr (cs, idx)"
    and dx: "date x = d" "start_date x = cs"
    by (rule predict_date_InrD)
  have srt: "sorted (cycle_starts p)" using p by (rule normalized_history_sorted)
  from g show ?thesis
  proof (cases rule: governing_cycle_cases)
    case (recorded j)
    from srt recorded(2) have "cycle_starts p ! 0 \<le> cycle_starts p ! j"
      by (simp add: sorted_nth_mono)
    moreover from recorded(2) have "hd (cycle_starts p) = cycle_starts p ! 0"
      by (cases "cycle_starts p") simp_all
    ultimately show ?thesis using recorded(4,5) before dx by simp
  next
    case projected
    from projected(2) have "hd (cycle_starts p) = cycle_starts p ! 0"
      by (cases "cycle_starts p") simp_all
    with projected(5) dx show ?thesis by simp
  qed
qed

lemma projected_start_far:
  fixes first d est :: int
  assumes "d < first" and "0 < est"
  shows "first - ((first - d) div est + 1) * est \<le> first - est"
proof -
  have "0 \<le> (first - d) div est" using assms by (simp add: pos_imp_zdiv_nonneg_iff)
  then have "1 * est \<le> ((first - d) div est + 1) * est"
    using assms(2) by (intro mult_right_mono) simp_all
  then show ?thesis by simp
qed

lemma projected_cycle_length:
  assumes srt: "sorted starts" and est: "0 < est" and before: "d < hd starts"
    and g: "governing_cycle starts (cycle_start_indices dates starts) est d = Inr (cs, idx)"
    and c: "current_cycle_length dates (cycle_start_indices dates starts) est cs idx = Inr L"
  shows "cs = hd starts - ((hd starts - d) div est + 1) * est \<and> est \<le> L"
proof -
  let ?ix = "cycle_start_indices dates starts"
  have at: "dates ! (?ix ! k) \<ge> starts ! k \<and> k < length starts" if "k < length ?ix" for k
    using cycle_start_indices_date[OF srt that] by simp
  have first: "starts ! 0 \<le> starts ! k" if "k < length starts" for k
    using srt that by (simp add: sorted_nth_mono)
  from g show ?thesis
  proof (cases rule: governing_cycle_cases)
    case (recorded j)
    from recorded(2) have "hd starts = starts ! 0" by (cases starts) simp_all
    with first[OF recorded(2)] recorded(4,5) before show ?thesis by simp
  next
    case projected
    from projected(2) have hd: "hd starts = starts ! 0" by (cases starts) simp_all
    with projected(5) have cs: "cs = hd starts - ((hd starts - d) div est + 1) * est" by simp
    from projected_start_far[OF before est] cs hd have far: "cs \<le> starts ! 0 - est" by simp
    from c have "est \<le> L"
    proof (cases rule: current_cycle_length_cases)
      case estimate
      then show ?thesis by simp
    next
      case (next_start p)
      from at[OF next_start(2)] first have "starts ! 0 \<le> dates ! (?ix ! Suc p)" by force
      with far next_start(4) show ?thesis by simp
    next
      case last_start
      have "length ?ix - 1 < length ?ix" using last_start(2) by simp
      from at[OF this] first last_start(2) have "starts ! 0 \<le> dates ! last ?ix"
        by (force simp add: last_conv_nth)
      with far last_start(4) show ?thesis by simp
    qed
    with cs show ?thesis by simp
  qed
qed

lemma top_level_projected:
  assumes run: "predict_menstrual_phases uid hr_rows md dflt = Inr predictions"
    and p: "normalized_history (summaries_of md) = Inr p"
    and x: "x \<in> set predictions"
    and before: "date x < hd (cycle_starts p)"
    and est: "0 < estimate_cycle_length (cycle_starts p) dflt"
  shows "\<exists>L. estimate_cycle_length (cycle_starts p) dflt \<le> L
      \<and> cycle_day x = day_within_cycle (date x - start_date x + 1) L
      \<and> start_date x = hd (cycle_starts p)
          - ((hd (cycle_starts p) - date x) div estimate_cycle_length (cycle_starts p) dflt + 1)
            * estimate_cycle_length (cycle_starts p) dflt"
proof -
  from run obtain dates p' where p': "normalized_history (summaries_of md) = Inr p'"
    and r: "predict_dates uid dates p' (cycle_start_indices dates (cycle_starts p'))
           (estimate_cycle_length (cycle_starts p') dflt) dates = Inr predictions"
    by (rule predict_menstrual_phases_InrD)
  from p p' have pp: "p' = p" by simp
  let ?ix = "cycle_start_indices dates (cycle_starts p)"
  let ?est = "estimate_cycle_length (cycle_starts p) dflt"
  from predict_dates_InrD[OF r x] pp obtain d
    where "predict_date uid dates p ?ix ?est d = Inr x" by blast
  then obtain cs idx L where g: "governing_cycle (cycle_starts p) ?ix ?est d = Inr (cs, idx)"
    and c: "current_cycle_length dates ?ix ?est cs idx = Inr L"
    and dx: "date x = d" "start_date x = cs" "cycle_day x = day_within_cycle (d - cs + 1) L"
    by (rule predict_date_InrD)
  have srt: "sorted (cycle_starts p)" using p by (rule normalized_history_sorted)
  from before dx have "d < hd (cycle_starts p)" by simp
  from projected_cycle_length[OF srt est this g c] dx show ?thesis by auto
qed

lemma example_general:
  assumes run: "predict_menstrual_phases uid hr_rows md dflt = Inr predictions"
    and p: "normalized_history (summaries_of md) = Inr p"
    and first: "hd (cycle_starts p) = ymd2ord 2024 3 1"
    and est: "estimate_cycle_length (cycle_starts p) dflt = 28"
    and x: "x \<in> set predictions" and d: "date x = ymd2ord 2024 2 10"
  shows "start_date x = ymd2ord 2024 2 2 \<and> cycle_day x = 9"
proof -
  have b: "date x < hd (cycle_starts p)"
    using first d by (simp add: ymd2ord_def days_before_year_def days_before_month_def is_leap_def)
  have e: "0 < estimate_cycle_length (cycle_starts p) dflt" using est by simp
  from top_level_projected[OF run p x b e] est obtain L where L: "28 \<le> L"
    and cd: "cycle_day x = day_within_cycle (date x - start_date x + 1) L"
    and sd: "start_date x = hd (cycle_starts p) - ((hd (cycle_starts p) - date x) div 28 + 1) * 28"
    by auto
  from sd first d have s: "start_date x = ymd2ord 2024 2 2"
    by (simp add: ymd2ord_def days_before_year_def days_before_month_def is_leap_def)
  have "date x - start_date x + 1 = 9"
    unfolding s d by (simp add: ymd2ord_def days_before_year_def days_before_month_def is_leap_def)
  with cd L have "cycle_day x = 9" by (simp add: day_within_cycle_def)
  with s show ?thesis by simp
qed

text \<open>
  Claim C4. For a date before the first cycle start the loop over the cycle starts finds
  nothing and the code projects backward: \<open>cycles_before\<close> is
  \<open>(first_start - date) div estimated_length + 1\<close> and the synthetic cycle start is
  \<open>first_start - cycles_before * estimated_length\<close> (an \<^verbatim>\<open>OverflowError\<close> when that is not
  a date). So every prediction emitted for such a date carries that start; with first start
  2024-03-01 and estimated length 28, a prediction for 2024-02-10 has start 2024-02-02 and
  cycle day 9, in every batch; one such batch is evaluated. (A batch with no target date
  on or after a recorded start emits nothing at all, and the single-date variant does not
  project.)
\<close>

theorem backward_projection:
  "(d < first \<and> est \<noteq> 0 \<longrightarrow>
      governing_cycle (first # rest) ix est d =
        (case minus_timedelta first (((first - d) div est + 1) * est) of
           Inl e \<Rightarrow> Inl e | Inr cycle_start \<Rightarrow> Inr (cycle_start, 0)))
   \<and> (predict_menstrual_phases uid hr_rows md dflt = Inr predictions
        \<and> normalized_history (summaries_of md) = Inr p
        \<and> x \<in> set predictions \<and> date x < hd (cycle_starts p) \<longrightarrow>
      start_date x = hd (cycle_starts p)
        - ((hd (cycle_starts p) - date x) div estimate_cycle_length (cycle_starts p) dflt + 1)
          * estimate_cycle_length (cycle_starts p) dflt)
   \<and> (predict_menstrual_phases uid hr_rows md dflt = Inr predictions
        \<and> normalized_history (summaries_of md) = Inr p
        \<and> hd (cycle_starts p) = ymd2ord 2024 3 1
        \<and> estimate_cycle_length (cycle_starts p) dflt = 28
        \<and> x \<in> set predictions \<and> date x = ymd2ord 2024 2 10 \<longrightarrow>
      start_date x = ymd2ord 2024 2 2 \<and> cycle_day x = 9)
   \<and> predict_menstrual_phases uid [''2024-02-10'', ''2024-03-01'']
       (Some \<lparr>cycleSummaries =
                Some [\<lparr>startDate = Some ''2024-03-01'', periodLength = Some 5,
                       fertileWindowStart = None, lengthOfFertileWindow = None\<rparr>],
              other_keys = False\<rparr>) 28
     = Inr [\<lparr>user_id = uid, date = ymd2ord 2024 2 10, start_date = ymd2ord 2024 2 2,
              predicted_phase = Follicular, cycle_day = 9\<rparr>,
            \<lparr>user_id = uid, date = ymd2ord 2024 3 1, start_date = ymd2ord 2024 3 1,
              predicted_phase = Menstrual, cycle_day = 1\<rparr>]"
proof -
  have run: "predict_menstrual_phases uid [''2024-02-10'', ''2024-03-01'']
       (Some \<lparr>cycleSummaries =
                Some [\<lparr>startDate = Some ''2024-03-01'', periodLength = Some 5,
                       fertileWindowStart = None, lengthOfFertileWindow = None\<rparr>],
              other_keys = False\<rparr>) 28
     = Inr [\<lparr>user_id = uid, date = ymd2ord 2024 2 10, start_date = ymd2ord 2024 2 2,
              predicted_phase = Follicular, cycle_day = 9\<rparr>,
            \<lparr>user_id = uid, date = ymd2ord 2024 3 1, start_date = ymd2ord 2024 3 1,
              predicted_phase = Menstrual, cycle_day = 1\<rparr>]"
    by code_simp
  show ?thesis
    using governing_cycle_before_first[of d first est rest ix]
      top_level_projection[of uid hr_rows md dflt predictions p x]
      example_general[of uid hr_rows md dflt predictions p x] run
    by blast
qed

theorem backward_projection_witness:
  "ymd2ord 2024 2 10 < ymd2ord 2024 3 1 \<and> (28::int) \<noteq> 0
   \<and> governing_cycle [ymd2ord 2024 3 1] [1] 28 (ymd2ord 2024 2 10)
       = Inr (ymd2ord 2024 2 2, 0)"
  using backward_projection[where d = "ymd2ord 2024 2 10" and first = "ymd2ord 2024 3 1"
      and est = 28 and rest = "[]" and ix = "[1]", THEN conjunct1]
  by (simp add: ymd2ord_def days_before_year_def days_before_month_def is_leap_def
      minus_timedelta_def)

section \<open>The length of the governing cycle\<close>

lemma first_index_from_least:
  "first_index_from i ds s = Some k \<Longrightarrow> m < k - i \<Longrightarrow> ds ! m < s"
proof (induction ds arbitrary: i m)
  case Nil
  then show ?case by simp
next
  case (Cons d ds)
  show ?case
  proof (cases "d \<ge> s")
    case True
    with Cons.prems show ?thesis by simp
  next
    case False
    with Cons.prems have f: "first_index_from (Suc i) ds s = Some k" by simp
    show ?thesis
    proof (cases m)
      case 0
      with False show ?thesis by simp
    next
      case (Suc m')
      with Cons.prems(2) have "m' < k - Suc i" by simp
      from Cons.IH[OF f this] Suc show ?thesis by simp
    qed
  qed
qed

lemma first_index_from_exists:
  "s \<in> set ds \<Longrightarrow> \<exists>k. first_index_from i ds s = Some k"
  by (induction ds arbitrary: i) auto

lemma first_index_of_member:
  assumes "sorted dates" and "s \<in> set dates"
  shows "\<exists>k. first_index_from 0 dates s = Some k \<and> k < length dates \<and> dates ! k = s"
proof -
  from first_index_from_exists[OF assms(2)] obtain k where k: "first_index_from 0 dates s = Some k"
    by blast
  from first_index_from_Some[OF k] have kl: "k < length dates" and ge: "s \<le> dates ! k" by simp_all
  from assms(2) obtain m where m: "m < length dates" "dates ! m = s"
    by (auto simp add: in_set_conv_nth)
  have "k \<le> m"
  proof (rule ccontr)
    assume "\<not> k \<le> m"
    then have "m < k - 0" by simp
    from first_index_from_least[OF k this] m show False by simp
  qed
  with assms(1) m have "dates ! k \<le> s" by (auto simp add: sorted_nth_mono)
  with ge kl k show ?thesis by simp
qed

lemma cycle_start_indices_all:
  assumes "\<forall>s \<in> set starts. \<exists>k. first_index_from 0 dates s = Some k"
  shows "length (cycle_start_indices dates starts) = length starts
    \<and> (\<forall>j < length starts.
          first_index_from 0 dates (starts ! j) = Some (cycle_start_indices dates starts ! j))"
  using assms
proof (induction starts)
  case Nil
  then show ?case by simp
next
  case (Cons s ss)
  from Cons.prems obtain k where k: "first_index_from 0 dates s = Some k" by auto
  from Cons.prems Cons.IH have ih: "length (cycle_start_indices dates ss) = length ss"
    "\<forall>j < length ss. first_index_from 0 dates (ss ! j) = Some (cycle_start_indices dates ss ! j)"
    by simp_all
  have "\<forall>j < length (s # ss).
          first_index_from 0 dates ((s # ss) ! j) = Some (cycle_start_indices dates (s # ss) ! j)"
  proof (intro allI impI)
    fix j assume "j < length (s # ss)"
    then show "first_index_from 0 dates ((s # ss) ! j) = Some (cycle_start_indices dates (s # ss) ! j)"
      using k ih(2) by (cases j) simp_all
  qed
  with k ih(1) show ?case by simp
qed

lemma index_of_distinct:
  "distinct xs \<Longrightarrow> j < length xs \<Longrightarrow> index_of xs (xs ! j) = Some j"
proof (induction xs arbitrary: j)
  case Nil
  then show ?case by simp
next
  case (Cons y ys)
  show ?case
  proof (cases j)
    case 0
    then show ?thesis by simp
  next
    case (Suc j')
    with Cons.prems have "j' < length ys" "distinct ys" "ys ! j' \<noteq> y" by auto
    with Cons.IH[of j'] Suc show ?thesis by auto
  qed
qed

text \<open>
  When every recorded start is itself a target date, and the target dates ascend, the
  length of a recorded governing cycle is the gap to the next recorded start, and the
  estimate for the last recorded cycle.
\<close>

lemma cycle_length_when_starts_are_target_dates:
  assumes dates: "sorted dates" and starts: "sorted_wrt (<) starts"
    and dense: "set starts \<subseteq> set dates"
    and from_first: "starts \<noteq> []" "hd starts \<le> d"
    and g: "governing_cycle starts (cycle_start_indices dates starts) est d = Inr (cs, idx)"
  shows "\<exists>j < length starts. cs = starts ! j
      \<and> current_cycle_length dates (cycle_start_indices dates starts) est cs idx
          = Inr (if Suc j < length starts then starts ! Suc j - starts ! j else est)"
proof -
  let ?ix = "cycle_start_indices dates starts"
  have ex: "\<forall>s \<in> set starts. \<exists>k. first_index_from 0 dates s = Some k"
    using dense first_index_from_exists by blast
  from cycle_start_indices_all[OF ex] have len: "length ?ix = length starts"
    and al: "\<forall>j < length starts. first_index_from 0 dates (starts ! j) = Some (?ix ! j)"
    by simp_all
  have val: "?ix ! j < length dates \<and> dates ! (?ix ! j) = starts ! j" if "j < length starts" for j
  proof -
    from that dense have "starts ! j \<in> set dates" by auto
    from first_index_of_member[OF dates this] al that show ?thesis by auto
  qed
  have dist: "distinct ?ix"
  proof (rule ccontr)
    assume "\<not> distinct ?ix"
    then obtain a b where ab: "a < b" "b < length ?ix" "?ix ! a = ?ix ! b"
      by (metis distinct_conv_nth nat_neq_iff)
    with len val[of a] val[of b] have "starts ! a = starts ! b" by simp
    moreover from starts ab len have "starts ! a < starts ! b"
      by (simp add: sorted_wrt_iff_nth_less)
    ultimately show False by simp
  qed
  from g show ?thesis
  proof (cases rule: governing_cycle_cases)
    case (recorded j)
    from index_of_distinct[OF dist recorded(1)] recorded(3)
    have io: "index_of ?ix idx = Some j" by simp
    have "current_cycle_length dates ?ix est cs idx
          = Inr (if Suc j < length starts then starts ! Suc j - starts ! j else est)"
    proof (cases "Suc j < length starts")
      case True
      have i: "int j + 1 = int (Suc j)" by simp
      from True len have s1: "subscript ?ix (int j + 1) = Inr (?ix ! Suc j)"
        unfolding i by (intro subscript_nat) simp
      from val[OF True] have s2: "subscript dates (int (?ix ! Suc j)) = Inr (starts ! Suc j)"
        by (simp add: subscript_nat)
      from True len io s1 s2 recorded(4) show ?thesis
        by (simp add: current_cycle_length_def)
    next
      case False
      with len io show ?thesis by (simp add: current_cycle_length_def)
    qed
    with recorded(2,4) show ?thesis by auto
  next
    case projected
    from len from_first(1) have "?ix \<noteq> []" by auto
    with projected(1) have "d < starts ! 0" by simp
    with from_first show ?thesis by (cases starts) simp_all
  qed
qed

text \<open>
  Claim C2 (the length of the governing cycle is the gap from its start to the next
  recorded start when there is one, and the estimate otherwise) does not hold of the code:
  the length is taken from the target dates, not from the recorded starts. With starts on 2025-01-05, 2025-02-02 and
  2025-03-02 and target dates 2025-03-10 and 2025-03-11, all three starts get index 0,
  \<^verbatim>\<open>cycle_start_indices.index(0) + 1\<close> is 1, and the length of the last cycle (which has
  no next recorded start, so the estimate 28 is due) becomes
  \<^verbatim>\<open>dates[0] - cycle_start\<close>, 8 days: day 9 of the cycle is reported as Menstrual, cycle
  day 1, where a length of 28 gives Follicular, day 9. When the first target date is the
  last start itself the length is 0 and the batch ends in a \<^verbatim>\<open>ZeroDivisionError\<close>. With
  starts on 2024-01-01 and 2024-01-29 and target dates 2024-01-12 and 2024-02-20 the first
  cycle gets length 50 (up to the target date 2024-02-20) where the next recorded start
  is 28 days later: 2024-01-12 is reported Follicular where a length of 28 gives Ovulatory.
  The code does what the claim says when the target dates ascend and every recorded start
  is itself a target date (\<open>cycle_length_when_starts_are_target_dates\<close>).
\<close>

theorem cycle_length_from_target_dates:
  "predict_menstrual_phases ''user'' [''2025-03-10'', ''2025-03-11'']
       (Some \<lparr>cycleSummaries =
                Some [\<lparr>startDate = Some ''2025-01-05'', periodLength = Some 5,
                       fertileWindowStart = None, lengthOfFertileWindow = None\<rparr>,
                      \<lparr>startDate = Some ''2025-02-02'', periodLength = Some 5,
                       fertileWindowStart = None, lengthOfFertileWindow = None\<rparr>,
                      \<lparr>startDate = Some ''2025-03-02'', periodLength = Some 5,
                       fertileWindowStart = None, lengthOfFertileWindow = None\<rparr>],
              other_keys = False\<rparr>) 28
     = Inr [\<lparr>user_id = ''user'', date = ymd2ord 2025 3 10, start_date = ymd2ord 2025 3 2,
              predicted_phase = Menstrual, cycle_day = 1\<rparr>,
            \<lparr>user_id = ''user'', date = ymd2ord 2025 3 11, start_date = ymd2ord 2025 3 2,
              predicted_phase = Menstrual, cycle_day = 2\<rparr>]
   \<and> cycle_start_indices [ymd2ord 2025 3 10, ymd2ord 2025 3 11]
        [ymd2ord 2025 1 5, ymd2ord 2025 2 2, ymd2ord 2025 3 2] = [0, 0, 0]
   \<and> estimate_cycle_length [ymd2ord 2025 1 5, ymd2ord 2025 2 2, ymd2ord 2025 3 2] 28 = 28
   \<and> current_cycle_length [ymd2ord 2025 3 10, ymd2ord 2025 3 11] [0, 0, 0] 28 (ymd2ord 2025 3 2) 0
       = Inr 8
   \<and> phase_of_day (phase_ranges 5 28 None) 9 = Follicular
   \<and> predict_menstrual_phases ''user'' [''2025-03-02'', ''2025-03-03'']
       (Some \<lparr>cycleSummaries =
                Some [\<lparr>startDate = Some ''2025-02-02'', periodLength = Some 5,
                       fertileWindowStart = None, lengthOfFertileWindow = None\<rparr>,
                      \<lparr>startDate = Some ''2025-03-02'', periodLength = Some 5,
                       fertileWindowStart = None, lengthOfFertileWindow = None\<rparr>],
              other_keys = False\<rparr>) 28
     = Inl (Raised ZeroDivisionError)
   \<and> predict_menstrual_phases ''user'' [''2024-01-12'', ''2024-02-20'']
       (Some \<lparr>cycleSummaries =
                Some [\<lparr>startDate = Some ''2024-01-01'', periodLength = Some 5,
                       fertileWindowStart = None, lengthOfFertileWindow = None\<rparr>,
                      \<lparr>startDate = Some ''2024-01-29'', periodLength = Some 5,
                       fertileWindowStart = None, lengthOfFertileWindow = None\<rparr>],
              other_keys = False\<rparr>) 28
     = Inr [\<lparr>user_id = ''user'', date = ymd2ord 2024 1 12, start_date = ymd2ord 2024 1 1,
              predicted_phase = Follicular, cycle_day = 12\<rparr>,
            \<lparr>user_id = ''user'', date = ymd2ord 2024 2 20, start_date = ymd2ord 2024 1 29,
              predicted_phase = Luteal, cycle_day = 23\<rparr>]
   \<and> current_cycle_length [ymd2ord 2024 1 12, ymd2ord 2024 2 20] [0, 1] 28 (ymd2ord 2024 1 1) 0
       = Inr 50
   \<and> phase_of_day (phase_ranges 5 28 None) 12 = Ovulatory"
  by code_simp


end
